theory Spec2Isabelle
  imports Complex_Main
begin

section \<open>Python text: the \<open>str\<close> methods and the regular expression of \<open>generate_excel.py\<close>\<close>

text \<open>
  A Python \<open>str\<close> is modelled as a \<open>string\<close>, one \<open>char\<close> per code point. The
  methods below are Python's on ASCII text (code points below 128), and everything that
  follows is about inputs whose texts are ASCII: there \<open>str.upper\<close>, \<open>str.lower\<close>
  and \<open>str.title\<close> change the 26 letters only, \<open>\d\<close> is one of the ten digits, and
  \<open>\s\<close> and \<open>str.isspace\<close> hold of the same ten characters: tab, line feed,
  vertical tab, form feed, carriage return, the four separators \<open>0x1C\<close> to \<open>0x1F\<close>,
  and space.
\<close>

text \<open>The texts that the statements below are about: every code point is below 128.\<close>

definition ascii_text :: "string \<Rightarrow> bool" where
  "ascii_text s = list_all (\<lambda>c. of_char c < (128 :: nat)) s"

text \<open>
  The character classes and the case mappings of ASCII characters. A character above 127
  is in no class here and is left as it is, which is not what Python does with it (it
  takes \<open>U+00A0\<close> for a space and maps \<open>U+00E9\<close> to \<open>U+00C9\<close>): a general
  statement about \<open>strip\<close>, \<open>upper\<close>, \<open>lower\<close>, \<open>title\<close> or the pattern holds of
  the program for the texts of \<open>ascii_text\<close>, and is stated for them.
\<close>

definition ascii_lowercase :: string where
  "ascii_lowercase = ''abcdefghijklmnopqrstuvwxyz''"

definition ascii_uppercase :: string where
  "ascii_uppercase = ''ABCDEFGHIJKLMNOPQRSTUVWXYZ''"

definition is_lower :: "char \<Rightarrow> bool" where
  "is_lower c = (c \<in> set ascii_lowercase)"

definition is_upper :: "char \<Rightarrow> bool" where
  "is_upper c = (c \<in> set ascii_uppercase)"

definition is_digit :: "char \<Rightarrow> bool" where
  "is_digit c = (c \<in> set ''0123456789'')"

definition is_space :: "char \<Rightarrow> bool" where
  "is_space c = (of_char c \<in> set [9, 10, 11, 12, 13, 28, 29, 30, 31, 32 :: nat])"

definition to_upper :: "char \<Rightarrow> char" where
  "to_upper c = (case map_of (zip ascii_lowercase ascii_uppercase) c of Some u \<Rightarrow> u | None \<Rightarrow> c)"

definition to_lower :: "char \<Rightarrow> char" where
  "to_lower c = (case map_of (zip ascii_uppercase ascii_lowercase) c of Some l \<Rightarrow> l | None \<Rightarrow> c)"

text \<open>\<open>s.upper()\<close> and \<open>s.lower()\<close>.\<close>

definition upper :: "string \<Rightarrow> string" where
  "upper s = map to_upper s"

definition lower :: "string \<Rightarrow> string" where
  "lower s = map to_lower s"

text \<open>\<open>s.strip()\<close>: the whitespace at both ends is removed.\<close>

definition strip :: "string \<Rightarrow> string" where
  "strip s = rev (dropWhile is_space (rev (dropWhile is_space s)))"

text \<open>
  \<open>s.title()\<close>: a letter that follows a letter is lowercased, any other letter is
  uppercased; the flag is Python's \<open>previous_is_cased\<close>.
\<close>

fun title_from :: "bool \<Rightarrow> string \<Rightarrow> string" where
  "title_from previous_is_cased [] = []"
| "title_from previous_is_cased (c # cs) =
     (if is_lower c then (if previous_is_cased then c else to_upper c) # title_from True cs
      else if is_upper c then (if previous_is_cased then to_lower c else c) # title_from True cs
      else c # title_from False cs)"

definition title :: "string \<Rightarrow> string" where
  "title s = title_from False s"

text \<open>\<open>s.startswith(p)\<close> and \<open>s.replace(old, new)\<close> for a one-character \<open>old\<close>.\<close>

definition startswith :: "string \<Rightarrow> string \<Rightarrow> bool" where
  "startswith s p = (take (length p) s = p)"

definition replace_char :: "char \<Rightarrow> string \<Rightarrow> string \<Rightarrow> string" where
  "replace_char old new s = concat (map (\<lambda>c. if c = old then new else [c]) s)"

subsection \<open>The pattern \<open>FLOOR_RE\<close>\<close>

text \<open>
  The regular expression is run the way Python's backtracking engine runs it: every
  piece of the pattern maps the text still to be read to the list of the texts that may
  remain after it, the engine's first choice first. \<open>rx_plus\<close> is a greedy \<open>+\<close> on a
  character class and also returns what it consumed, \<open>rx_opt\<close> a greedy \<open>?\<close>,
  \<open>rx_alt\<close> an alternation, \<open>rx_lit\<close> a literal under \<open>re.I\<close>, and \<open>rx_end\<close> the
  anchor \<open>$\<close>, which holds at the end of the text and before a line feed that ends it.
\<close>

fun rx_plus :: "(char \<Rightarrow> bool) \<Rightarrow> string \<Rightarrow> (string \<times> string) list" where
  "rx_plus cls [] = []"
| "rx_plus cls (c # cs) =
     (if cls c then map (\<lambda>(consumed, rest). (c # consumed, rest)) (rx_plus cls cs) @ [([c], cs)]
      else [])"

definition rx_lit :: "string \<Rightarrow> string \<Rightarrow> string list" where
  "rx_lit lit s = (if lower (take (length lit) s) = lower lit then [drop (length lit) s] else [])"

definition rx_alt :: "(string \<Rightarrow> string list) list \<Rightarrow> string \<Rightarrow> string list" where
  "rx_alt branches s = concat (map (\<lambda>branch. branch s) branches)"

definition rx_opt :: "(string \<Rightarrow> string list) \<Rightarrow> string \<Rightarrow> string list" where
  "rx_opt piece s = piece s @ [s]"

definition rx_end :: "string \<Rightarrow> bool" where
  "rx_end s = (s = [] \<or> s = [CHR 0x0A])"

text \<open>
  \<open>FLOOR_RE = re.compile(r"^(\d+)(?:st|nd|rd|th)?\s+Floor$", re.I)\<close>: the list of
  the values of group 1 over all the ways the pattern matches, in the engine's order.
\<close>

definition FLOOR_RE :: "string \<Rightarrow> string list" where
  "FLOOR_RE s =
     [group1.
        (group1, r1) \<leftarrow> rx_plus is_digit s,
        r2 \<leftarrow> rx_opt (rx_alt [rx_lit ''st'', rx_lit ''nd'', rx_lit ''rd'', rx_lit ''th'']) r1,
        (spaces, r3) \<leftarrow> rx_plus is_space r2,
        r4 \<leftarrow> rx_lit ''Floor'' r3,
        rx_end r4]"

text \<open>\<open>FLOOR_RE.match(s)\<close>: \<open>None\<close>, or the match object, of which only group 1 is read.\<close>

definition FLOOR_RE_match :: "string \<Rightarrow> string option" where
  "FLOOR_RE_match s = (case FLOOR_RE s of [] \<Rightarrow> None | group1 # _ \<Rightarrow> Some group1)"

subsection \<open>\<open>normalise_sheet_name\<close>\<close>

definition normalise_sheet_name :: "string \<Rightarrow> string" where
  "normalise_sheet_name name =
     (case FLOOR_RE_match (strip name) of
        Some group1 \<Rightarrow> ''Floor '' @ group1
      | None \<Rightarrow> take 31 (title name))"

section \<open>Python values and number formatting\<close>

text \<open>The exceptions that the program can raise, by class.\<close>

datatype exn =
    AttributeError
  | TypeError
  | ValueError
  | OverflowError
  | DuplicateNameError
  | LibraryError string

text \<open>
  A Python \<open>float\<close> is a double: a sign and a magnitude \<open>m * 2 ^ e\<close> (every finite
  double, and negative zero, has this form), an infinity, or the one \<open>nan\<close> object of
  the \<open>json\<close> module.
\<close>

datatype pyfloat = Finite bool nat int | Infinite bool | NaN

text \<open>
  What \<open>json.load\<close> returns: \<open>None\<close>, \<open>bool\<close>, \<open>int\<close>, \<open>float\<close>, \<open>str\<close>, \<open>list\<close>
  and \<open>dict\<close>. A \<open>dict\<close> is the list of its items in insertion order; its keys are
  strings, each at most once.
\<close>

datatype pyval =
    PNone
  | PBool bool
  | PInt int
  | PFloat pyfloat
  | PStr string
  | PList "pyval list"
  | PDict "(string \<times> pyval) list"

text \<open>Truth value testing, as in \<open>if not aps\<close> and \<open>x or {}\<close>.\<close>

fun truthy :: "pyval \<Rightarrow> bool" where
  "truthy PNone = False"
| "truthy (PBool b) = b"
| "truthy (PInt i) = (i \<noteq> 0)"
| "truthy (PFloat (Finite neg m e)) = (m \<noteq> 0)"
| "truthy (PFloat (Infinite neg)) = True"
| "truthy (PFloat NaN) = True"
| "truthy (PStr s) = (s \<noteq> [])"
| "truthy (PList xs) = (xs \<noteq> [])"
| "truthy (PDict kvs) = (kvs \<noteq> [])"

text \<open>
  \<open>obj.get(key, default)\<close>: only a \<open>dict\<close> has the method, every other value raises
  AttributeError.
\<close>

fun dict_get :: "pyval \<Rightarrow> string \<Rightarrow> pyval \<Rightarrow> exn + pyval" where
  "dict_get (PDict kvs) key dflt =
     Inr (case map_of kvs key of Some v \<Rightarrow> v | None \<Rightarrow> dflt)"
| "dict_get obj key dflt = Inl AttributeError"

subsection \<open>Decimal output\<close>

definition digit_char :: "nat \<Rightarrow> char" where
  "digit_char d = ''0123456789'' ! (d mod 10)"

function str_nat :: "nat \<Rightarrow> string" where
  "str_nat n = (if n < 10 then [digit_char n] else str_nat (n div 10) @ [digit_char (n mod 10)])"
  by pat_completeness auto
termination
  by (relation "measure id") auto

declare str_nat.simps [simp del]

text \<open>The format specification \<open>03d\<close> on a counter: zeros on the left up to width 3.\<close>

definition format_03d :: "nat \<Rightarrow> string" where
  "format_03d n = replicate (3 - length (str_nat n)) (CHR ''0'') @ str_nat n"

text \<open>
  The format specification \<open>.1f\<close> on a double: the exact value is rounded to one
  decimal, a tie to the even digit; the sign is kept also when the digits are zero.
\<close>

definition round_half_even :: "nat \<Rightarrow> nat \<Rightarrow> nat" where
  "round_half_even n d =
     (let q = n div d; r = n mod d
      in if d < 2 * r \<or> (2 * r = d \<and> odd q) then q + 1 else q)"

definition tenths :: "nat \<Rightarrow> int \<Rightarrow> nat" where
  "tenths m e =
     (if 0 \<le> e then 10 * m * 2 ^ nat e else round_half_even (10 * m) (2 ^ nat (- e)))"

fun float_format_1f :: "pyfloat \<Rightarrow> string" where
  "float_format_1f (Finite neg m e) =
     (if neg then ''-'' else []) @ str_nat (tenths m e div 10) @ ''.'' @ str_nat (tenths m e mod 10)"
| "float_format_1f (Infinite neg) = (if neg then ''-inf'' else ''inf'')"
| "float_format_1f NaN = ''nan''"

text \<open>
  An \<open>int\<close> under \<open>.1f\<close> is converted to a double first: exactly up to 53 bits, above
  that rounded to 53 bits (a tie to even), and with OverflowError when the result is
  \<open>2 ^ 1024\<close> or more.
\<close>

function bit_length :: "nat \<Rightarrow> nat" where
  "bit_length n = (if n = 0 then 0 else Suc (bit_length (n div 2)))"
  by pat_completeness auto
termination
  by (relation "measure id") auto

declare bit_length.simps [simp del]

definition float_of_int :: "int \<Rightarrow> exn + pyfloat" where
  "float_of_int i =
     (let a = nat \<bar>i\<bar>; n = bit_length a
      in if n \<le> 53 then Inr (Finite (i < 0) a 0)
         else let shift = n - 53; q = round_half_even a (2 ^ shift)
              in if 1024 < n \<or> (n = 1024 \<and> q = 2 ^ 53) then Inl OverflowError
                 else Inr (Finite (i < 0) q (int shift)))"

text \<open>
  \<open>format(v, ".1f")\<close>, the replacement field \<open>{v:.1f}\<close> of an f-string: a \<open>bool\<close> is
  an \<open>int\<close>; \<open>None\<close>, a \<open>list\<close> and a \<open>dict\<close> raise TypeError, a \<open>str\<close> ValueError.
\<close>

fun format_1f :: "pyval \<Rightarrow> exn + string" where
  "format_1f PNone = Inl TypeError"
| "format_1f (PBool b) = Inr (float_format_1f (Finite False (if b then 1 else 0) 0))"
| "format_1f (PInt i) =
     (case float_of_int i of Inl e \<Rightarrow> Inl e | Inr f \<Rightarrow> Inr (float_format_1f f))"
| "format_1f (PFloat f) = Inr (float_format_1f f)"
| "format_1f (PStr s) = Inl ValueError"
| "format_1f (PList xs) = Inl TypeError"
| "format_1f (PDict kvs) = Inl TypeError"

section \<open>The row builder (the body of the inner loop of \<open>main\<close>)\<close>

definition HEADER :: "string list" where
  "HEADER =
     [''Placement Number'', ''AP Model'', ''Antenna Type'', ''Antenna Vendor'',
      ''Antenna Model'', ''Mount Type'', ''Mounting Bracket'', ''Mounting Adapter'',
      ''AP in Enclosure?'', ''Enclosure Model'', ''Antenna in Enclosure?'', ''Direction *'',
      ''Downtilt *'', ''Notes'']"

text \<open>\<open>placement_number = f"AP-{placement_counter:03d}"\<close>\<close>

definition placement_number :: "nat \<Rightarrow> string" where
  "placement_number placement_counter = ''AP-'' @ format_03d placement_counter"

text \<open>
  \<open>model_raw.upper().replace("C", "C-") if model_raw.lower().startswith("c") and "-" not
  in model_raw else model_raw.upper()\<close>, for a \<open>str\<close>.
\<close>

definition normalise_model :: "string \<Rightarrow> string" where
  "normalise_model model_raw =
     (if startswith (lower model_raw) ''c'' \<and> CHR ''-'' \<notin> set model_raw
      then replace_char (CHR ''C'') ''C-'' (upper model_raw)
      else upper model_raw)"

text \<open>
  \<open>model_raw = ap.get("model", "")\<close> and the expression above; the condition calls
  \<open>model_raw.lower()\<close> first, which only a \<open>str\<close> has.
\<close>

definition model_field :: "pyval \<Rightarrow> exn + string" where
  "model_field ap =
     (case dict_get ap ''model'' (PStr []) of
        Inl e \<Rightarrow> Inl e
      | Inr (PStr model_raw) \<Rightarrow> Inr (normalise_model model_raw)
      | Inr other \<Rightarrow> Inl AttributeError)"

text \<open>
  \<open>coord = ap.get("coordinate_xyz") or {}\<close> and
  \<open>coord_note = f"x={coord.get('x'):.1f}, y={coord.get('y'):.1f}" if coord else ""\<close>.
  The f-string evaluates and formats \<open>x\<close> before it looks at \<open>y\<close>.
\<close>

definition coord_note :: "pyval \<Rightarrow> exn + string" where
  "coord_note ap =
     (case dict_get ap ''coordinate_xyz'' PNone of
        Inl e \<Rightarrow> Inl e
      | Inr v \<Rightarrow>
          (let coord = (if truthy v then v else PDict [])
           in if truthy coord then
                (case dict_get coord ''x'' PNone of
                   Inl e \<Rightarrow> Inl e
                 | Inr x \<Rightarrow>
                     (case format_1f x of
                        Inl e \<Rightarrow> Inl e
                      | Inr xs \<Rightarrow>
                          (case dict_get coord ''y'' PNone of
                             Inl e \<Rightarrow> Inl e
                           | Inr y \<Rightarrow>
                               (case format_1f y of
                                  Inl e \<Rightarrow> Inl e
                                | Inr ys \<Rightarrow> Inr (''x='' @ xs @ '', y='' @ ys)))))
              else Inr []))"

definition build_row :: "nat \<Rightarrow> pyval \<Rightarrow> exn + string list" where
  "build_row placement_counter ap =
     (case model_field ap of
        Inl e \<Rightarrow> Inl e
      | Inr model \<Rightarrow>
          (case coord_note ap of
             Inl e \<Rightarrow> Inl e
           | Inr note \<Rightarrow>
               Inr [placement_number placement_counter, model, ''Internal Omni'', ''N/A'',
                    ''N/A'', ''Hard Ceiling'', ''<insert mounting bracket model>'',
                    ''<insert mounting adapter model>'', ''No'', ''N/A'', ''N/A'', ''N/A'',
                    ''N/A'', note]))"

section \<open>Grouping by floor\<close>

text \<open>
  The keys of \<open>by_floor\<close>. Python finds a key by hash and \<open>==\<close>: \<open>None\<close> equals
  itself, a \<open>bool\<close>, an \<open>int\<close> and a finite \<open>float\<close> are equal when their values are
  (\<open>True == 1 == 1.0\<close>), a \<open>str\<close> equals the same text only. A key is kept as the value
  that decides this, so that equality of keys is equality in HOL. A \<open>list\<close> and a \<open>dict\<close>
  are unhashable: using one as a key raises TypeError.
\<close>

datatype pykey = KNone | KNum rat | KInf bool | KNaN | KStr string

fun float_key :: "pyfloat \<Rightarrow> pykey" where
  "float_key (Finite neg m e) =
     KNum ((if neg then - 1 else 1) * of_nat m * (if 0 \<le> e then 2 ^ nat e else 1 / 2 ^ nat (- e)))"
| "float_key (Infinite neg) = KInf neg"
| "float_key NaN = KNaN"

fun hash_key :: "pyval \<Rightarrow> exn + pykey" where
  "hash_key PNone = Inr KNone"
| "hash_key (PBool b) = Inr (KNum (if b then 1 else 0))"
| "hash_key (PInt i) = Inr (KNum (of_int i))"
| "hash_key (PFloat f) = Inr (float_key f)"
| "hash_key (PStr s) = Inr (KStr s)"
| "hash_key (PList xs) = Inl TypeError"
| "hash_key (PDict kvs) = Inl TypeError"

text \<open>
  \<open>floor = ap.get("floorplan_name", "Unknown Floor")\<close>, as the key that
  \<open>by_floor[floor]\<close> looks up.
\<close>

definition floor_of :: "pyval \<Rightarrow> exn + pykey" where
  "floor_of ap =
     (case dict_get ap ''floorplan_name'' (PStr ''Unknown Floor'') of
        Inl e \<Rightarrow> Inl e
      | Inr floor_value \<Rightarrow> hash_key floor_value)"

text \<open>
  \<open>by_floor[floor].append(ap)\<close> on a \<open>defaultdict(list)\<close>: the dictionary is the list
  of its items in insertion order; a new key goes to the end with a one-element list.
\<close>

fun by_floor_append :: "pykey \<Rightarrow> pyval \<Rightarrow> (pykey \<times> pyval list) list \<Rightarrow> (pykey \<times> pyval list) list" where
  "by_floor_append floor_key ap [] = [(floor_key, [ap])]"
| "by_floor_append floor_key ap ((k, aps_on_floor) # items) =
     (if k = floor_key then (k, aps_on_floor @ [ap]) # items
      else (k, aps_on_floor) # by_floor_append floor_key ap items)"

text \<open>The loop \<open>for ap in aps\<close> that fills \<open>by_floor\<close>.\<close>

fun group_by_floor :: "pyval list \<Rightarrow> (pykey \<times> pyval list) list \<Rightarrow> exn + (pykey \<times> pyval list) list" where
  "group_by_floor [] by_floor = Inr by_floor"
| "group_by_floor (ap # aps) by_floor =
     (case floor_of ap of
        Inl e \<Rightarrow> Inl e
      | Inr floor_key \<Rightarrow> group_by_floor aps (by_floor_append floor_key ap by_floor))"

text \<open>
  What \<open>for ap in aps\<close> iterates over: the elements of a \<open>list\<close>, the keys of a
  \<open>dict\<close>, the characters of a \<open>str\<close>; no other value is iterable.
\<close>

fun iterate :: "pyval \<Rightarrow> exn + pyval list" where
  "iterate (PList xs) = Inr xs"
| "iterate (PDict kvs) = Inr (map (\<lambda>(k, v). PStr k) kvs)"
| "iterate (PStr s) = Inr (map (\<lambda>c. PStr [c]) s)"
| "iterate other = Inl TypeError"

section \<open>The workbook\<close>

text \<open>
  The spreadsheet library is not part of the repository: \<open>main\<close> takes its two
  fallible operations as a parameter. \<open>create_sheet\<close> gets the titles of the sheets
  that exist and the title asked for, and returns the title of the new sheet or raises;
  \<open>ws_append\<close> gets the rows of the sheet and the new row, and may raise.
\<close>

record openpyxl =
  create_sheet :: "string list \<Rightarrow> string \<Rightarrow> exn + string"
  ws_append :: "string list list \<Rightarrow> string list \<Rightarrow> exn option"

record worksheet =
  ws_title :: string
  ws_rows :: "string list list"
  header_bold :: bool
  freeze_panes :: string

text \<open>
  The inner loop \<open>for idx, ap in enumerate(aps_on_floor, start=1)\<close>, with the rows of
  the sheet and \<open>placement_counter\<close> as its state.
\<close>

fun rows_loop :: "openpyxl \<Rightarrow> pyval list \<Rightarrow> nat \<Rightarrow> string list list \<Rightarrow> exn + (string list list \<times> nat)" where
  "rows_loop lib [] placement_counter rows = Inr (rows, placement_counter)"
| "rows_loop lib (ap # aps_on_floor) placement_counter rows =
     (case build_row placement_counter ap of
        Inl e \<Rightarrow> Inl e
      | Inr row \<Rightarrow>
          (case ws_append lib rows row of
             Some e \<Rightarrow> Inl e
           | None \<Rightarrow> rows_loop lib aps_on_floor (placement_counter + 1) (rows @ [row])))"

text \<open>
  \<open>normalise_sheet_name(floor_name)\<close> on a key of \<open>by_floor\<close>: \<open>name.strip()\<close> exists
  for a \<open>str\<close> only.
\<close>

fun sheet_name_of :: "pykey \<Rightarrow> exn + string" where
  "sheet_name_of (KStr name) = Inr (normalise_sheet_name name)"
| "sheet_name_of other = Inl AttributeError"

text \<open>
  The outer loop \<open>for floor_name, aps_on_floor in by_floor.items()\<close>, with the sheets
  of the workbook and \<open>placement_counter\<close> as its state.
\<close>

fun sheets_loop :: "openpyxl \<Rightarrow> (pykey \<times> pyval list) list \<Rightarrow> nat \<Rightarrow> worksheet list \<Rightarrow> exn + worksheet list" where
  "sheets_loop lib [] placement_counter wb = Inr wb"
| "sheets_loop lib ((floor_name, aps_on_floor) # items) placement_counter wb =
     (case sheet_name_of floor_name of
        Inl e \<Rightarrow> Inl e
      | Inr sheet_name \<Rightarrow>
          (case create_sheet lib (map ws_title wb) sheet_name of
             Inl e \<Rightarrow> Inl e
           | Inr new_title \<Rightarrow>
               (case ws_append lib [] HEADER of
                  Some e \<Rightarrow> Inl e
                | None \<Rightarrow>
                    (case rows_loop lib aps_on_floor placement_counter [HEADER] of
                       Inl e \<Rightarrow> Inl e
                     | Inr (rows, next_counter) \<Rightarrow>
                         sheets_loop lib items next_counter
                           (wb @ [\<lparr>ws_title = new_title, ws_rows = rows, header_bold = True,
                                   freeze_panes = ''A2''\<rparr>])))))"

section \<open>\<open>main\<close>\<close>

text \<open>
  \<open>main\<close> from the command line \<open>argv\<close> and the value \<open>data\<close> that \<open>json.load\<close>
  returned, to the point where the program stops: \<open>Exit\<close> is \<open>sys.exit\<close> after a
  printed message, \<open>Raised\<close> an uncaught exception, and \<open>Saved wb\<close> the call
  \<open>wb.save(out_path)\<close> on the workbook \<open>wb\<close>, the only place where a file is written.
  The workbook starts without sheets: the default sheet is removed first.
\<close>

datatype message =
    UsageMessage  \<comment> \<open>Usage: python -m src.generate_excel <input.json> <output.xlsx>\<close>
  | NoAccessPointsMessage  \<comment> \<open>No access points found in JSON - aborting.\<close>

datatype outcome = Exit message nat | Raised exn | Saved "worksheet list"

definition main :: "openpyxl \<Rightarrow> string list \<Rightarrow> pyval \<Rightarrow> outcome" where
  "main lib argv data =
     (if length argv \<noteq> 3 then Exit UsageMessage 1
      else case dict_get data ''accesspoints'' (PList []) of
             Inl e \<Rightarrow> Raised e
           | Inr aps \<Rightarrow>
               if \<not> truthy aps then Exit NoAccessPointsMessage 1
               else case iterate aps of
                      Inl e \<Rightarrow> Raised e
                    | Inr items \<Rightarrow>
                        (case group_by_floor items [] of
                           Inl e \<Rightarrow> Raised e
                         | Inr by_floor \<Rightarrow>
                             (case sheets_loop lib by_floor 1 [] of
                                Inl e \<Rightarrow> Raised e
                              | Inr wb \<Rightarrow> Saved wb)))"

text \<open>
  Modelled from the spec: the spreadsheet library (\<open>Workbook.create_sheet\<close> and
  \<open>Worksheet.append\<close> of openpyxl) is missing from the sources. By section 4.1 of the
  specification the creation of a sheet whose title exists fails with a
  DuplicateNameError; nothing else is said to fail.
\<close>

definition spec_openpyxl :: openpyxl where
  "spec_openpyxl =
     \<lparr>create_sheet = (\<lambda>titles new_title.
        if new_title \<in> set titles then Inl DuplicateNameError else Inr new_title),
      ws_append = (\<lambda>rows row. None)\<rparr>"

section \<open>Notions of the specification\<close>

text \<open>
  The definitions of this section are not taken from the program: they say what the
  statements below are about.
\<close>

text \<open>The elements of a list in the order in which each appears first.\<close>

primrec first_seen :: "'a list \<Rightarrow> 'a list" where
  "first_seen [] = []"
| "first_seen (x # xs) = x # filter (\<lambda>y. y \<noteq> x) (first_seen xs)"

text \<open>The first cells of the rows of a table, and the placement numbers of a workbook:
  the first cells of the rows below the header, sheet after sheet.\<close>

definition first_column :: "string list list \<Rightarrow> string list" where
  "first_column rows = concat (map (take 1) rows)"

definition data_rows :: "worksheet \<Rightarrow> string list list" where
  "data_rows ws = drop 1 (ws_rows ws)"

definition placement_numbers :: "worksheet list \<Rightarrow> string list" where
  "placement_numbers wb = first_column (concat (map data_rows wb))"

text \<open>The number that a text of decimal digits denotes (Python's \<open>int(s)\<close>).\<close>

definition digit_value :: "char \<Rightarrow> nat" where
  "digit_value c = of_char c - 48"

definition decimal_value :: "string \<Rightarrow> nat" where
  "decimal_value s = foldl (\<lambda>acc c. 10 * acc + digit_value c) 0 s"


text \<open>
  The doubles nearest to 12.34 and to 5.6, which \<open>json.load\<close> returns for these two
  texts: \<open>0x1.8ae147ae147aep+3\<close> and \<open>0x1.6666666666666p+2\<close>.
\<close>

definition double_12_34 :: pyfloat where
  "double_12_34 = Finite False 3473401212609495 (- 48)"

definition double_5_6 :: pyfloat where
  "double_5_6 = Finite False 3152519739159347 (- 49)"

text \<open>A value that \<open>.1f\<close> takes for a number: a \<open>bool\<close>, an \<open>int\<close> or a \<open>float\<close>.\<close>

fun numeric :: "pyval \<Rightarrow> bool" where
  "numeric (PBool b) = True"
| "numeric (PInt i) = True"
| "numeric (PFloat f) = True"
| "numeric other = False"

text \<open>The records that \<open>by_floor\<close> holds under a key; none when the key is absent.\<close>

definition group_of :: "(pykey \<times> pyval list) list \<Rightarrow> pykey \<Rightarrow> pyval list" where
  "group_of g k = (case map_of g k of None \<Rightarrow> [] | Some recs \<Rightarrow> recs)"

text \<open>
  The sheet \<open>ws\<close> is the one made for an item of \<open>by_floor\<close>, when the sheets
  before it have the titles \<open>titles\<close> and the counter stands at \<open>counter\<close>: the
  key of the group is a text, the library gave the title of \<open>ws\<close> for the normalised
  name, and the rows of \<open>ws\<close> are the header and the rows built from the records of the
  group, in their order and with consecutive counters; the header is bold and frozen.
\<close>

definition sheet_from ::
  "openpyxl \<Rightarrow> string list \<Rightarrow> nat \<Rightarrow> pykey \<times> pyval list \<Rightarrow> worksheet \<Rightarrow> bool" where
  "sheet_from lib titles counter item ws =
     (\<exists>name.
        fst item = KStr name
        \<and> create_sheet lib titles (normalise_sheet_name name) = Inr (ws_title ws)
        \<and> map Inr (ws_rows ws)
            = Inr HEADER # map2 build_row [counter ..< counter + length (snd item)] (snd item)
        \<and> header_bold ws \<and> freeze_panes ws = ''A2'')"

text \<open>
  What \<open>.1f\<close> cannot format in a coordinate: the key is absent (\<open>coord.get\<close> gives
  \<open>None\<close>), the value is not a number, or it is an \<open>int\<close> of 1024 bits or more.
\<close>

definition unformattable :: "pyval option \<Rightarrow> bool" where
  "unformattable entry =
     (case entry of
        None \<Rightarrow> True
      | Some u \<Rightarrow> \<not> numeric u \<or> (\<exists>i. u = PInt i \<and> 2 ^ 1023 \<le> \<bar>i\<bar>))"

text \<open>A record of the input format: a \<open>dict\<close> whose floor name is a \<open>str\<close> or absent
  and whose row can be built.\<close>

definition well_formed :: "pyval \<Rightarrow> bool" where
  "well_formed ap =
     ((\<exists>name. floor_of ap = Inr (KStr name)) \<and> (\<exists>row. build_row 0 ap = Inr row))"

text \<open>
  An input for the examples: three access points on two floors, the floors interleaved,
  and a command line. The second input has two floor names with one sheet name, the third
  a record without a floor name.
\<close>

definition example_argv :: "string list" where
  "example_argv = [''generate_excel.py'', ''openintent.json'', ''placement.xlsx'']"

definition example_aps :: "pyval list" where
  "example_aps =
     [PDict [(''model'', PStr ''c9130''), (''floorplan_name'', PStr ''1st Floor''),
             (''coordinate_xyz'', PDict [(''x'', PFloat double_12_34), (''y'', PFloat double_5_6)])],
      PDict [(''model'', PStr ''AIR-AP''), (''floorplan_name'', PStr ''2nd Floor'')],
      PDict [(''model'', PStr ''C9130AXI''), (''floorplan_name'', PStr ''1st Floor'')]]"

definition example_data :: pyval where
  "example_data = PDict [(''accesspoints'', PList example_aps)]"

definition clashing_aps :: "pyval list" where
  "clashing_aps =
     [PDict [(''model'', PStr ''c9130''), (''floorplan_name'', PStr ''1st Floor'')],
      PDict [(''model'', PStr ''c9130''), (''floorplan_name'', PStr ''1 floor'')]]"

definition unnamed_aps :: "pyval list" where
  "unnamed_aps =
     [PDict [(''model'', PStr ''c9130''), (''floorplan_name'', PStr ''Lobby'')],
      PDict [(''model'', PStr ''AIR-AP'')],
      PDict [(''model'', PStr ''ap-105''), (''floorplan_name'', PStr ''Unknown Floor'')]]"

text \<open>A library for the examples that raises nothing and gives every sheet the title
  asked for.\<close>

definition accepting_openpyxl :: openpyxl where
  "accepting_openpyxl =
     \<lparr>create_sheet = (\<lambda>titles new_title. Inr new_title), ws_append = (\<lambda>rows row. None)\<rparr>"

section \<open>Properties\<close>

lemmas char_class_defs = is_lower_def is_upper_def is_digit_def is_space_def to_upper_def
  to_lower_def ascii_lowercase_def ascii_uppercase_def upper_def lower_def

lemmas rx_defs = normalise_sheet_name_def strip_def FLOOR_RE_match_def FLOOR_RE_def rx_lit_def
  rx_alt_def rx_opt_def rx_end_def

subsection \<open>Decimal output\<close>

lemma digit_value_digit_char: "d < 10 \<Longrightarrow> digit_value (digit_char d) = d"
proof -
  assume "d < 10"
  then have "d \<in> {0, 1, 2, 3, 4, 5, 6, 7, 8, 9}" by auto
  then show ?thesis by (auto simp: digit_value_def digit_char_def)
qed

lemma is_digit_digit_char: "is_digit (digit_char d)"
proof -
  have "d mod 10 = 0 \<or> d mod 10 = 1 \<or> d mod 10 = 2 \<or> d mod 10 = 3 \<or> d mod 10 = 4
    \<or> d mod 10 = 5 \<or> d mod 10 = 6 \<or> d mod 10 = 7 \<or> d mod 10 = 8 \<or> d mod 10 = 9"
    by arith
  then show ?thesis
    unfolding is_digit_def digit_char_def by (elim disjE) simp_all
qed

lemma decimal_value_snoc:
  "decimal_value (s @ [c]) = 10 * decimal_value s + digit_value c"
  by (simp add: decimal_value_def)

lemma decimal_value_str_nat: "decimal_value (str_nat n) = n"
proof (induction n rule: str_nat.induct)
  case (1 n)
  show ?case
  proof (cases "n < 10")
    case True
    then show ?thesis
      using digit_value_digit_char [of n] by (subst str_nat.simps) (simp add: decimal_value_def)
  next
    case False
    have "decimal_value (str_nat n) = 10 * decimal_value (str_nat (n div 10)) + digit_value (digit_char (n mod 10))"
      using False by (subst str_nat.simps) (simp add: decimal_value_snoc)
    also have "\<dots> = 10 * (n div 10) + n mod 10"
      using "1.IH" False by (simp add: digit_value_digit_char)
    finally show ?thesis by simp
  qed
qed

lemma decimal_value_zeros: "decimal_value (replicate k (CHR ''0'') @ s) = decimal_value s"
proof -
  have "foldl (\<lambda>acc c. 10 * acc + digit_value c) 0 (replicate k (CHR ''0'')) = 0"
    by (induction k) (simp_all add: digit_value_def)
  then show ?thesis by (simp add: decimal_value_def)
qed

lemma decimal_value_format_03d: "decimal_value (format_03d n) = n"
  by (simp add: format_03d_def decimal_value_zeros decimal_value_str_nat)

lemma placement_number_value: "decimal_value (drop 3 (placement_number n)) = n"
  by (simp add: placement_number_def decimal_value_format_03d)

lemma placement_number_inj: "placement_number m = placement_number n \<Longrightarrow> m = n"
  using placement_number_value by metis

lemma str_nat_digits: "list_all is_digit (str_nat n)"
proof (induction n rule: str_nat.induct)
  case (1 n)
  show ?case
  proof (cases "n < 10")
    case True
    then show ?thesis by (subst str_nat.simps) (simp add: is_digit_digit_char)
  next
    case False
    then show ?thesis
      using "1.IH" by (subst str_nat.simps) (simp add: is_digit_digit_char)
  qed
qed

lemma str_nat_length: "n < 1000 \<Longrightarrow> length (str_nat n) \<le> 3"
proof -
  assume n: "n < 1000"
  have one: "\<And>k. k < 10 \<Longrightarrow> length (str_nat k) = 1" by (subst str_nat.simps) simp
  have two: "\<And>k. k < 100 \<Longrightarrow> length (str_nat k) \<le> 2"
  proof -
    fix k :: nat assume "k < 100"
    then have "k div 10 < 10" by simp
    then show "length (str_nat k) \<le> 2"
      using one [of "k div 10"] by (subst str_nat.simps) simp
  qed
  have "n div 10 < 100" using n by simp
  then show ?thesis
    using two [of "n div 10"] by (subst str_nat.simps) simp
qed

lemma str_nat_nonempty: "str_nat n \<noteq> []"
  by (subst str_nat.simps) simp

lemma format_03d_length: "n < 1000 \<Longrightarrow> length (format_03d n) = 3"
  using str_nat_length [of n] str_nat_nonempty [of n] by (simp add: format_03d_def)

lemma format_03d_digits: "list_all is_digit (format_03d n)"
proof -
  have "is_digit (CHR ''0'')" by (simp add: is_digit_def)
  then show ?thesis
    using str_nat_digits [of n] by (auto simp: format_03d_def list_all_iff)
qed

subsection \<open>The sheet name\<close>




















subsection \<open>The model field\<close>

lemma to_upper_C: "to_upper c = CHR ''C'' \<longleftrightarrow> c = CHR ''c'' \<or> c = CHR ''C''"
  by (simp add: to_upper_def ascii_lowercase_def ascii_uppercase_def)

lemma to_lower_c: "to_lower c = CHR ''c'' \<longleftrightarrow> c = CHR ''c'' \<or> c = CHR ''C''"
  by (simp add: to_lower_def ascii_lowercase_def ascii_uppercase_def)

lemma replace_char_absent: "old \<notin> set s \<Longrightarrow> replace_char old new s = s"
  by (induction s) (auto simp: replace_char_def)

text \<open>
  A name that starts with "c", has no hyphen and no second "c" gets its one hyphen after
  the first letter: on such names the program does what the specification says.
\<close>

theorem normalise_model_single_C:
  assumes "ascii_text model_raw"
    and "startswith (lower model_raw) ''c''" and "CHR ''-'' \<notin> set model_raw"
    and "CHR ''c'' \<notin> set (tl model_raw)" and "CHR ''C'' \<notin> set (tl model_raw)"
  shows "normalise_model model_raw = CHR ''C'' # CHR ''-'' # upper (tl model_raw)"
proof -
  from assms(2) obtain x xs where m: "model_raw = x # xs" and x: "to_lower x = CHR ''c''"
    by (cases model_raw) (auto simp: startswith_def lower_def)
  from x have "to_upper x = CHR ''C''" by (simp add: to_lower_c to_upper_C)
  moreover have "CHR ''C'' \<notin> set (upper xs)"
  proof
    assume "CHR ''C'' \<in> set (upper xs)"
    then obtain y where "y \<in> set xs" "to_upper y = CHR ''C''"
      by (auto simp: upper_def)
    then have "CHR ''c'' \<in> set xs \<or> CHR ''C'' \<in> set xs"
      by (auto simp: to_upper_C)
    with assms(4,5) m show False by simp
  qed
  ultimately show ?thesis
    using assms(2,3) m replace_char_absent [of "CHR ''C''" "upper xs" "''C-''"]
    by (simp add: normalise_model_def upper_def replace_char_def)
qed

theorem normalise_model_single_C_witness:
  "ascii_text ''c9130axi''
   \<and> startswith (lower ''c9130axi'') ''c'' \<and> CHR ''-'' \<notin> set ''c9130axi''
   \<and> CHR ''c'' \<notin> set (tl ''c9130axi'') \<and> CHR ''C'' \<notin> set (tl ''c9130axi'')
   \<and> normalise_model ''c9130axi'' = ''C-9130AXI''"
proof -
  have h: "ascii_text ''c9130axi''"
    "startswith (lower ''c9130axi'') ''c''" "CHR ''-'' \<notin> set ''c9130axi''"
    "CHR ''c'' \<notin> set (tl ''c9130axi'')" "CHR ''C'' \<notin> set (tl ''c9130axi'')"
    by (simp_all add: ascii_text_def startswith_def char_class_defs)
  have u: "upper (tl ''c9130axi'') = ''9130AXI''"
    by (simp add: char_class_defs)
  from normalise_model_single_C [OF h] have "normalise_model ''c9130axi'' = ''C-9130AXI''"
    by (simp only: u)
  with h show ?thesis by (intro conjI)
qed

lemma normalise_model_otherwise:
  "\<not> (startswith (lower model_raw) ''c'' \<and> CHR ''-'' \<notin> set model_raw)
   \<Longrightarrow> normalise_model model_raw = upper model_raw"
  by (auto simp: normalise_model_def)

text \<open>
  Claim C2: a model name that starts with "c" and has no hyphen gets one hyphen, after
  its first letter, and no other. The program replaces every "C" of the uppercased name
  by "C-": a name with a second "c", such as CISCO9130, gets a hyphen after each.
\<close>

theorem model_hyphen_after_every_C:
  "normalise_model ''CISCO9130'' = ''C-ISC-O9130''"
  by (simp add: normalise_model_def startswith_def replace_char_def char_class_defs)

subsection \<open>The notes field\<close>

lemma format_double_12_34: "float_format_1f double_12_34 = ''12.3''"
  by (simp add: double_12_34_def tenths_def round_half_even_def digit_char_def str_nat.simps)

lemma format_double_5_6: "float_format_1f double_5_6 = ''5.6''"
  by (simp add: double_5_6_def tenths_def round_half_even_def digit_char_def str_nat.simps)

lemma build_row_note:
  "build_row counter ap = Inr row \<Longrightarrow> coord_note ap = Inr note \<Longrightarrow> row ! 13 = note"
  by (auto simp: build_row_def split: sum.splits)

text \<open>
  Every row that is built has the 14 cells of the header; the cells between the model and
  the note are the fixed defaults.
\<close>

theorem build_row_cells:
  assumes "build_row counter ap = Inr row"
  shows "length row = length HEADER \<and> length HEADER = 14
    \<and> take 11 (drop 2 row)
        = [''Internal Omni'', ''N/A'', ''N/A'', ''Hard Ceiling'',
           ''<insert mounting bracket model>'', ''<insert mounting adapter model>'', ''No'',
           ''N/A'', ''N/A'', ''N/A'', ''N/A'']"
  using assms by (auto simp: build_row_def HEADER_def split: sum.splits)

theorem build_row_cells_witness:
  "build_row 1 (PDict []) = Inr [''AP-001'', [], ''Internal Omni'', ''N/A'', ''N/A'',
      ''Hard Ceiling'', ''<insert mounting bracket model>'',
      ''<insert mounting adapter model>'', ''No'', ''N/A'', ''N/A'', ''N/A'', ''N/A'', []]
   \<and> length [''AP-001'', [], ''Internal Omni'', ''N/A'', ''N/A'',
      ''Hard Ceiling'', ''<insert mounting bracket model>'',
      ''<insert mounting adapter model>'', ''No'', ''N/A'', ''N/A'', ''N/A'', ''N/A'', []]
     = length HEADER"
proof -
  have n: "placement_number 1 = ''AP-001''"
    by (simp add: placement_number_def format_03d_def digit_char_def str_nat.simps
        numeral_2_eq_2)
  have r: "build_row 1 (PDict []) = Inr [''AP-001'', [], ''Internal Omni'', ''N/A'', ''N/A'',
      ''Hard Ceiling'', ''<insert mounting bracket model>'',
      ''<insert mounting adapter model>'', ''No'', ''N/A'', ''N/A'', ''N/A'', ''N/A'', []]"
  proof -
    have m: "model_field (PDict []) = Inr []"
      by (simp add: model_field_def normalise_model_def startswith_def lower_def upper_def)
    have c: "coord_note (PDict []) = Inr []"
      by (simp add: coord_note_def)
    show ?thesis by (simp only: build_row_def m c n sum.case)
  qed
  from build_row_cells [OF r] r show ?thesis by (intro conjI) simp_all
qed

text \<open>
  Claim C5: a record whose \<open>coordinate_xyz\<close> holds x = 12.34 and y = 5.6 gets the note
  "x=12.3, y=5.6", each coordinate with one decimal, and a record without the key
  \<open>coordinate_xyz\<close> gets the empty note; the note is the last cell (index 13) of every
  row built from the record.
\<close>

theorem notes_of_coordinates:
  "(map_of kvs ''coordinate_xyz'' = Some (PDict c) \<and> map_of c ''x'' = Some (PFloat double_12_34)
      \<and> map_of c ''y'' = Some (PFloat double_5_6)
    \<longrightarrow> coord_note (PDict kvs) = Inr ''x=12.3, y=5.6''
        \<and> (\<forall>counter row. build_row counter (PDict kvs) = Inr row \<longrightarrow> row ! 13 = ''x=12.3, y=5.6''))
   \<and> (map_of kvs ''coordinate_xyz'' = None
    \<longrightarrow> coord_note (PDict kvs) = Inr []
        \<and> (\<forall>counter row. build_row counter (PDict kvs) = Inr row \<longrightarrow> row ! 13 = []))"
proof (intro conjI impI)
  assume h: "map_of kvs ''coordinate_xyz'' = Some (PDict c) \<and> map_of c ''x'' = Some (PFloat double_12_34)
      \<and> map_of c ''y'' = Some (PFloat double_5_6)"
  then have "c \<noteq> []" by auto
  with h show n: "coord_note (PDict kvs) = Inr ''x=12.3, y=5.6''"
    by (simp add: coord_note_def format_double_12_34 format_double_5_6)
  show "\<forall>counter row. build_row counter (PDict kvs) = Inr row \<longrightarrow> row ! 13 = ''x=12.3, y=5.6''"
    using n build_row_note by blast
next
  assume h: "map_of kvs ''coordinate_xyz'' = None"
  then show n: "coord_note (PDict kvs) = Inr []"
    by (simp add: coord_note_def)
  show "\<forall>counter row. build_row counter (PDict kvs) = Inr row \<longrightarrow> row ! 13 = []"
    using n build_row_note by blast
qed

theorem notes_of_coordinates_witness:
  "map_of [(''model'', PStr ''c9130''),
           (''coordinate_xyz'', PDict [(''x'', PFloat double_12_34), (''y'', PFloat double_5_6)])]
     ''coordinate_xyz'' = Some (PDict [(''x'', PFloat double_12_34), (''y'', PFloat double_5_6)])
   \<and> build_row 1 (PDict [(''model'', PStr ''c9130''),
        (''coordinate_xyz'', PDict [(''x'', PFloat double_12_34), (''y'', PFloat double_5_6)])])
      = Inr [''AP-001'', ''C-9130'', ''Internal Omni'', ''N/A'', ''N/A'', ''Hard Ceiling'',
             ''<insert mounting bracket model>'', ''<insert mounting adapter model>'', ''No'',
             ''N/A'', ''N/A'', ''N/A'', ''N/A'', ''x=12.3, y=5.6'']
   \<and> map_of [(''model'', PStr ''c9130'')] ''coordinate_xyz'' = None
   \<and> coord_note (PDict [(''model'', PStr ''c9130'')]) = Inr []"
proof -
  let ?c = "[(''x'', PFloat double_12_34), (''y'', PFloat double_5_6)]"
  let ?kvs = "[(''model'', PStr ''c9130''), (''coordinate_xyz'', PDict ?c)]"
  have cell: "coord_note (PDict ?kvs) = Inr ''x=12.3, y=5.6''"
    using notes_of_coordinates [of ?kvs ?c] by simp
  have model: "model_field (PDict ?kvs) = Inr ''C-9130''"
    by (simp add: model_field_def normalise_model_def startswith_def replace_char_def
        char_class_defs)
  have number: "placement_number 1 = ''AP-001''"
    by (simp add: placement_number_def format_03d_def digit_char_def str_nat.simps
        numeral_2_eq_2)
  have row: "build_row 1 (PDict ?kvs)
      = Inr [''AP-001'', ''C-9130'', ''Internal Omni'', ''N/A'', ''N/A'', ''Hard Ceiling'',
             ''<insert mounting bracket model>'', ''<insert mounting adapter model>'', ''No'',
             ''N/A'', ''N/A'', ''N/A'', ''N/A'', ''x=12.3, y=5.6'']"
    by (simp only: build_row_def cell model number sum.case)
  have empty: "coord_note (PDict [(''model'', PStr ''c9130'')]) = Inr []"
    using notes_of_coordinates [of "[(''model'', PStr ''c9130'')]" "[]"] by simp
  show ?thesis using row empty by simp
qed

subsection \<open>Failures of the row builder\<close>

lemma bit_length_bound: "k < bit_length n \<Longrightarrow> 2 ^ k \<le> n"
proof (induction k arbitrary: n)
  case 0
  then have "n \<noteq> 0" by (subst (asm) bit_length.simps) (simp split: if_splits)
  then show ?case by simp
next
  case (Suc k)
  from Suc.prems have n: "n \<noteq> 0" and "k < bit_length (n div 2)"
    by (subst (asm) bit_length.simps, simp split: if_splits)+
  then have "2 ^ k \<le> n div 2" using Suc.IH by blast
  then show ?case by simp
qed

lemma float_of_int_overflow:
  assumes "float_of_int i = Inl e"
  shows "e = OverflowError \<and> 2 ^ 1023 \<le> \<bar>i\<bar>"
proof -
  from assms have e: "e = OverflowError" and "1023 < bit_length (nat \<bar>i\<bar>)"
    by (auto simp: float_of_int_def Let_def split: if_splits)
  then have "(2::nat) ^ 1023 \<le> nat \<bar>i\<bar>" using bit_length_bound by blast
  then have "int (2 ^ 1023) \<le> \<bar>i\<bar>" by linarith
  then show ?thesis using e by simp
qed

lemma format_1f_fails:
  "format_1f u = Inl e \<Longrightarrow> \<not> numeric u \<or> (\<exists>i. u = PInt i \<and> 2 ^ 1023 \<le> \<bar>i\<bar>)"
  by (cases u) (auto split: sum.splits dest: float_of_int_overflow)

lemma format_1f_get_fails:
  "format_1f (case map_of c key of None \<Rightarrow> PNone | Some v \<Rightarrow> v) = Inl e
   \<Longrightarrow> unformattable (map_of c key)"
  using format_1f_fails by (auto simp: unformattable_def split: option.splits)

lemma coord_note_falsy:
  "map_of kvs ''coordinate_xyz'' = Some v \<Longrightarrow> \<not> truthy v \<Longrightarrow> coord_note (PDict kvs) = Inr []"
  by (simp add: coord_note_def)

lemma coord_note_fails:
  assumes "coord_note (PDict kvs) = Inl e"
  shows "\<exists>v. map_of kvs ''coordinate_xyz'' = Some v \<and> truthy v
           \<and> ((\<forall>c. v \<noteq> PDict c)
              \<or> (\<exists>c. v = PDict c \<and> c \<noteq> []
                  \<and> (unformattable (map_of c ''x'') \<or> unformattable (map_of c ''y''))))"
proof (cases "map_of kvs ''coordinate_xyz''")
  case None
  with assms show ?thesis by (simp add: coord_note_def)
next
  case (Some v)
  show ?thesis
  proof (cases "truthy v")
    case False
    with Some assms show ?thesis by (simp add: coord_note_def)
  next
    case True
    show ?thesis
    proof (cases "\<exists>c. v = PDict c")
      case False
      with Some True show ?thesis by simp
    next
      case True
      then obtain c where c: "v = PDict c" by blast
      with \<open>truthy v\<close> have ne: "c \<noteq> []" by simp
      from assms Some c ne
      have "unformattable (map_of c ''x'') \<or> unformattable (map_of c ''y'')"
        by (auto simp: coord_note_def split: sum.splits dest: format_1f_get_fails)
      with Some c ne \<open>truthy v\<close> show ?thesis by simp
    qed
  qed
qed

lemma build_row_model:
  "build_row counter ap = Inr row \<Longrightarrow> model_field ap = Inr model \<Longrightarrow> row ! 1 = model"
  by (auto simp: build_row_def split: sum.splits)

lemma build_row_succeeds:
  "model_field ap = Inr model \<Longrightarrow> coord_note ap = Inr note \<Longrightarrow> \<exists>row. build_row counter ap = Inr row"
  by (simp add: build_row_def)

lemma build_row_coord_fails:
  "model_field ap = Inr model \<Longrightarrow> coord_note ap = Inl e \<Longrightarrow> build_row counter ap = Inl e"
  by (simp add: build_row_def)

lemma model_field_missing: "map_of kvs ''model'' = None \<Longrightarrow> model_field (PDict kvs) = Inr []"
  by (simp add: model_field_def normalise_model_def startswith_def lower_def upper_def)

text \<open>
  Claim C9, as stated: every record without the key \<open>model\<close> gets a row. It fails on a
  record without \<open>model\<close> whose coordinates have no y: the note cannot be formatted
  and no row is built.
\<close>

theorem missing_model_row_can_fail:
  "map_of [(''coordinate_xyz'', PDict [(''x'', PInt 1)])] ''model'' = None
   \<and> build_row 1 (PDict [(''coordinate_xyz'', PDict [(''x'', PInt 1)])]) = Inl TypeError"
  by (simp add: build_row_def model_field_def normalise_model_def startswith_def lower_def
      upper_def coord_note_def float_of_int_def bit_length.simps)

text \<open>
  Claim C9, amended: for a record without the key \<open>model\<close> the model step raises nothing
  and gives the empty text; the row is built exactly when the note can be formatted, and
  its AP Model cell (index 1) is then empty; otherwise the error is that of the note.
\<close>

theorem missing_model_gives_empty_field:
  assumes "map_of kvs ''model'' = None"
  shows "model_field (PDict kvs) = Inr []
    \<and> (\<forall>note. coord_note (PDict kvs) = Inr note
          \<longrightarrow> (\<exists>row. build_row counter (PDict kvs) = Inr row \<and> row ! 1 = []))
    \<and> (\<forall>e. coord_note (PDict kvs) = Inl e \<longrightarrow> build_row counter (PDict kvs) = Inl e)"
  using model_field_missing [OF assms] by (auto simp: build_row_def)

theorem missing_model_gives_empty_field_witness:
  "map_of [(''floorplan_name'', PStr ''Lobby'')] ''model'' = None
   \<and> model_field (PDict [(''floorplan_name'', PStr ''Lobby'')]) = Inr []
   \<and> coord_note (PDict [(''floorplan_name'', PStr ''Lobby'')]) = Inr []
   \<and> (\<exists>row. build_row 1 (PDict [(''floorplan_name'', PStr ''Lobby'')]) = Inr row \<and> row ! 1 = [])
   \<and> map_of [(''coordinate_xyz'', PDict [(''x'', PInt 1)])] ''model'' = None
   \<and> coord_note (PDict [(''coordinate_xyz'', PDict [(''x'', PInt 1)])]) = Inl TypeError
   \<and> build_row 1 (PDict [(''coordinate_xyz'', PDict [(''x'', PInt 1)])]) = Inl TypeError"
proof -
  have a: "coord_note (PDict [(''floorplan_name'', PStr ''Lobby'')]) = Inr []"
    by (simp add: coord_note_def)
  have b: "coord_note (PDict [(''coordinate_xyz'', PDict [(''x'', PInt 1)])]) = Inl TypeError"
    by (simp add: coord_note_def float_of_int_def bit_length.simps)
  show ?thesis
    using a b
      missing_model_gives_empty_field [of "[(''floorplan_name'', PStr ''Lobby'')]" 1]
      missing_model_gives_empty_field [of "[(''coordinate_xyz'', PDict [(''x'', PInt 1)])]" 1]
    by simp
qed

text \<open>
  Claim C10, as stated: coordinate formatting fails only on a non-empty object without a
  numeric x or y. It also fails on a value that is no object: a list of two numbers, the
  "pair" of the data model, has no method \<open>get\<close>.
\<close>

theorem coordinates_not_an_object_fail:
  "coord_note (PDict [(''coordinate_xyz'', PList [PInt 1, PInt 2])]) = Inl AttributeError
   \<and> build_row 1 (PDict [(''coordinate_xyz'', PList [PInt 1, PInt 2])]) = Inl AttributeError"
  by (simp add: build_row_def model_field_def normalise_model_def startswith_def lower_def
      upper_def coord_note_def)

text \<open>
  Claim C10, amended: when \<open>coordinate_xyz\<close> is present but \<open>null\<close> or an empty object,
  the note is empty and the row is built whenever the model step succeeds; and
  coordinate formatting fails only when \<open>coordinate_xyz\<close> is present and true (not
  null, zero or empty) and either is no object, or is an object in which x or y is absent,
  not a number, or an integer of 1024 bits or more.
\<close>

theorem coordinate_failures:
  "(map_of kvs ''coordinate_xyz'' = Some v \<and> (v = PNone \<or> v = PDict [])
      \<longrightarrow> coord_note (PDict kvs) = Inr []
          \<and> (\<forall>model. model_field (PDict kvs) = Inr model
                \<longrightarrow> (\<exists>row. build_row counter (PDict kvs) = Inr row \<and> row ! 13 = [])))
   \<and> (coord_note (PDict kvs) = Inl e
      \<longrightarrow> (\<exists>w. map_of kvs ''coordinate_xyz'' = Some w \<and> truthy w
            \<and> ((\<forall>c. w \<noteq> PDict c)
               \<or> (\<exists>c. w = PDict c \<and> c \<noteq> []
                   \<and> (unformattable (map_of c ''x'') \<or> unformattable (map_of c ''y''))))))"
proof (intro conjI impI)
  assume h: "map_of kvs ''coordinate_xyz'' = Some v \<and> (v = PNone \<or> v = PDict [])"
  then have "\<not> truthy v" by auto
  with h show n: "coord_note (PDict kvs) = Inr []"
    using coord_note_falsy by blast
  show "\<forall>model. model_field (PDict kvs) = Inr model
      \<longrightarrow> (\<exists>row. build_row counter (PDict kvs) = Inr row \<and> row ! 13 = [])"
    using n by (simp add: build_row_def)
next
  assume "coord_note (PDict kvs) = Inl e"
  then show "\<exists>w. map_of kvs ''coordinate_xyz'' = Some w \<and> truthy w
            \<and> ((\<forall>c. w \<noteq> PDict c)
               \<or> (\<exists>c. w = PDict c \<and> c \<noteq> []
                   \<and> (unformattable (map_of c ''x'') \<or> unformattable (map_of c ''y''))))"
    by (rule coord_note_fails)
qed

theorem coordinate_failures_witness:
  "map_of [(''coordinate_xyz'', PNone)] ''coordinate_xyz'' = Some PNone
   \<and> coord_note (PDict [(''coordinate_xyz'', PNone)]) = Inr []
   \<and> model_field (PDict [(''coordinate_xyz'', PNone)]) = Inr []
   \<and> (\<exists>row. build_row 1 (PDict [(''coordinate_xyz'', PNone)]) = Inr row \<and> row ! 13 = [])
   \<and> map_of [(''coordinate_xyz'', PDict [])] ''coordinate_xyz'' = Some (PDict [])
   \<and> coord_note (PDict [(''coordinate_xyz'', PDict [])]) = Inr []
   \<and> coord_note (PDict [(''coordinate_xyz'', PDict [(''x'', PInt 1)])]) = Inl TypeError
   \<and> truthy (PDict [(''x'', PInt 1)])
   \<and> unformattable (map_of [(''x'', PInt 1)] ''y'')"
proof -
  have m: "model_field (PDict [(''coordinate_xyz'', PNone)]) = Inr []"
    by (simp add: model_field_missing)
  have b: "coord_note (PDict [(''coordinate_xyz'', PDict [(''x'', PInt 1)])]) = Inl TypeError"
    by (simp add: coord_note_def float_of_int_def bit_length.simps)
  have u: "unformattable (map_of [(''x'', PInt 1)] ''y'')"
    using b coordinate_failures [of "[(''coordinate_xyz'', PDict [(''x'', PInt 1)])]" PNone 1 TypeError]
    by (simp add: unformattable_def)
  show ?thesis
    using m b u
      coordinate_failures [of "[(''coordinate_xyz'', PNone)]" PNone 1 TypeError]
      coordinate_failures [of "[(''coordinate_xyz'', PDict [])]" "PDict []" 1 TypeError]
    by simp
qed

subsection \<open>Grouping\<close>

lemma first_seen_filter: "first_seen (filter P xs) = filter P (first_seen xs)"
proof (induction xs)
  case Nil
  show ?case by simp
next
  case (Cons x xs)
  show ?case
  proof (cases "P x")
    case True
    with Cons show ?thesis by (simp add: conj_commute)
  next
    case False
    have "filter P (filter (\<lambda>y. y \<noteq> x) (first_seen xs)) = filter P (first_seen xs)"
      using False by (auto intro: filter_cong)
    with Cons False show ?thesis by simp
  qed
qed

lemma set_first_seen: "set (first_seen xs) = set xs"
  by (induction xs) auto

lemma distinct_first_seen: "distinct (first_seen xs)"
  by (induction xs) (auto simp: set_first_seen)

lemma first_seen_map_inj: "inj f \<Longrightarrow> first_seen (map f xs) = map f (first_seen xs)"
  by (induction xs) (auto simp: filter_map comp_def inj_eq)

lemma keys_by_floor_append:
  "map fst (by_floor_append k ap g) =
     (if k \<in> set (map fst g) then map fst g else map fst g @ [k])"
  by (induction g) force+

lemma lookup_by_floor_append:
  "map_of (by_floor_append k ap g) =
     (map_of g)(k \<mapsto> (case map_of g k of None \<Rightarrow> [ap] | Some recs \<Rightarrow> recs @ [ap]))"
  by (induction g) (auto simp: fun_eq_iff)

lemma size_by_floor_append:
  "length (concat (map snd (by_floor_append k ap g))) = Suc (length (concat (map snd g)))"
  by (induction g) auto

lemma group_of_append:
  "group_of (by_floor_append k ap g) k' = (if k' = k then group_of g k @ [ap] else group_of g k')"
  by (simp add: group_of_def lookup_by_floor_append split: option.splits)

lemma group_by_floor_floors:
  "group_by_floor aps g = Inr g' \<Longrightarrow> \<exists>ks. map floor_of aps = map Inr ks"
proof (induction aps arbitrary: g)
  case Nil
  show ?case by simp
next
  case (Cons ap aps)
  then obtain k where k: "floor_of ap = Inr k"
    and rest: "group_by_floor aps (by_floor_append k ap g) = Inr g'"
    by (auto split: sum.splits)
  from Cons.IH [OF rest] obtain ks where "map floor_of aps = map Inr ks" by blast
  with k have "map floor_of (ap # aps) = map Inr (k # ks)" by simp
  then show ?case by blast
qed

lemma group_by_floor_keys:
  "group_by_floor aps g = Inr g' \<Longrightarrow> map floor_of aps = map Inr ks
   \<Longrightarrow> map fst g' = map fst g @ first_seen (filter (\<lambda>k. k \<notin> set (map fst g)) ks)"
proof (induction aps arbitrary: g ks)
  case Nil
  then show ?case by simp
next
  case (Cons ap aps)
  from Cons.prems(2) obtain k ks' where ks: "ks = k # ks'" and k: "floor_of ap = Inr k"
    and ks': "map floor_of aps = map Inr ks'"
    by (cases ks) auto
  from Cons.prems(1) k have rest: "group_by_floor aps (by_floor_append k ap g) = Inr g'"
    by simp
  note IH = Cons.IH [OF rest ks']
  show ?case
  proof (cases "k \<in> set (map fst g)")
    case True
    with IH ks show ?thesis by (simp add: keys_by_floor_append)
  next
    case False
    have keys': "map fst (by_floor_append k ap g) = map fst g @ [k]"
      using False by (simp add: keys_by_floor_append)
    have step: "first_seen (filter (\<lambda>k'. k' \<notin> set (map fst g)) ks)
        = k # filter (\<lambda>y. y \<noteq> k) (first_seen (filter (\<lambda>k'. k' \<notin> set (map fst g)) ks'))"
      using False ks by simp
    have "filter (\<lambda>k'. k' \<notin> set (map fst g @ [k])) ks'
        = filter (\<lambda>y. y \<noteq> k) (filter (\<lambda>k'. k' \<notin> set (map fst g)) ks')"
      by (auto intro: filter_cong)
    then have F: "first_seen (filter (\<lambda>k'. k' \<notin> set (map fst g @ [k])) ks')
        = filter (\<lambda>y. y \<noteq> k) (first_seen (filter (\<lambda>k'. k' \<notin> set (map fst g)) ks'))"
      by (simp only: first_seen_filter)
    have "map fst g' = (map fst g @ [k]) @ first_seen (filter (\<lambda>k'. k' \<notin> set (map fst g @ [k])) ks')"
      using IH by (simp only: keys')
    also have "\<dots> = map fst g @ first_seen (filter (\<lambda>k'. k' \<notin> set (map fst g)) ks)"
      by (simp only: F step append_assoc append_Cons append_Nil)
    finally show ?thesis .
  qed
qed

lemma group_by_floor_groups:
  "group_by_floor aps g = Inr g'
   \<Longrightarrow> group_of g' k = group_of g k @ filter (\<lambda>ap. floor_of ap = Inr k) aps"
proof (induction aps arbitrary: g)
  case Nil
  then show ?case by simp
next
  case (Cons ap aps)
  then obtain k' where k': "floor_of ap = Inr k'"
    and rest: "group_by_floor aps (by_floor_append k' ap g) = Inr g'"
    by (auto split: sum.splits)
  from Cons.IH [OF rest] k' show ?case by (auto simp: group_of_append)
qed

lemma group_by_floor_size:
  "group_by_floor aps g = Inr g'
   \<Longrightarrow> length (concat (map snd g')) = length (concat (map snd g)) + length aps"
proof (induction aps arbitrary: g)
  case Nil
  then show ?case by simp
next
  case (Cons ap aps)
  then obtain k' where rest: "group_by_floor aps (by_floor_append k' ap g) = Inr g'"
    by (auto split: sum.splits)
  from Cons.IH [OF rest] show ?case by (simp add: size_by_floor_append)
qed

lemma group_by_floor_total:
  "\<forall>ap \<in> set aps. \<exists>k. floor_of ap = Inr k \<Longrightarrow> \<exists>g'. group_by_floor aps g = Inr g'"
  by (induction aps arbitrary: g) auto

lemma group_by_floor_spec:
  assumes "group_by_floor aps [] = Inr by_floor"
  shows "map (\<lambda>(k, recs). Inr k) by_floor = first_seen (map floor_of aps)"
    and "distinct (map fst by_floor)"
    and "\<forall>(k, recs) \<in> set by_floor. recs = filter (\<lambda>ap. floor_of ap = Inr k) aps"
    and "length by_floor = card (set (map floor_of aps))"
proof -
  from group_by_floor_floors [OF assms] obtain ks where ks: "map floor_of aps = map Inr ks"
    by blast
  from group_by_floor_keys [OF assms ks] have keys: "map fst by_floor = first_seen ks"
    by simp
  have "map (\<lambda>(k, recs). Inr k) by_floor = map Inr (map fst by_floor)"
    by (simp add: case_prod_unfold comp_def)
  also have "\<dots> = first_seen (map Inr ks)"
    using keys by (simp add: first_seen_map_inj)
  finally show one: "map (\<lambda>(k, recs). Inr k) by_floor = first_seen (map floor_of aps)"
    using ks by simp
  show d: "distinct (map fst by_floor)"
    using keys by (simp add: distinct_first_seen)
  show "\<forall>(k, recs) \<in> set by_floor. recs = filter (\<lambda>ap. floor_of ap = Inr k) aps"
  proof (clarify)
    fix k recs assume "(k, recs) \<in> set by_floor"
    with d have "map_of by_floor k = Some recs" by simp
    then have "group_of by_floor k = recs" by (simp add: group_of_def)
    with group_by_floor_groups [OF assms, of k]
    show "recs = filter (\<lambda>ap. floor_of ap = Inr k) aps" by (simp add: group_of_def)
  qed
  have "length by_floor = length (first_seen (map floor_of aps))"
    using one [symmetric] by (metis length_map)
  also have "\<dots> = card (set (map floor_of aps))"
    by (metis distinct_card distinct_first_seen set_first_seen)
  finally show "length by_floor = card (set (map floor_of aps))" .
qed

subsection \<open>The loops\<close>

lemma build_row_first: "build_row c ap = Inr row \<Longrightarrow> take 1 row = [placement_number c]"
  by (auto simp: build_row_def split: sum.splits)

lemma first_column_append: "first_column (xs @ ys) = first_column xs @ first_column ys"
  by (simp add: first_column_def)

lemma rows_loop_spec:
  "rows_loop lib aps c rows = Inr (rows', c')
   \<Longrightarrow> c' = c + length aps
       \<and> (\<exists>new. rows' = rows @ new \<and> length new = length aps
             \<and> first_column new = map placement_number [c ..< c + length aps]
             \<and> map Inr new = map2 build_row [c ..< c + length aps] aps)"
proof (induction aps arbitrary: c rows)
  case Nil
  then show ?case by (simp add: first_column_def)
next
  case (Cons ap aps)
  from Cons.prems obtain row where row: "build_row c ap = Inr row"
    and rest: "rows_loop lib aps (c + 1) (rows @ [row]) = Inr (rows', c')"
    by (auto split: sum.splits option.splits)
  from Cons.IH [OF rest] obtain new where c': "c' = c + 1 + length aps"
    and new: "rows' = (rows @ [row]) @ new" "length new = length aps"
      "first_column new = map placement_number [c + 1 ..< c + 1 + length aps]"
      "map Inr new = map2 build_row [c + 1 ..< c + 1 + length aps] aps"
    by blast
  have upt: "[c ..< c + length (ap # aps)] = c # [c + 1 ..< c + 1 + length aps]"
    by (simp add: upt_rec)
  have "first_column (row # new) = map placement_number [c ..< c + length (ap # aps)]"
    using build_row_first [OF row] new(3) by (simp only: upt) (simp add: first_column_def)
  moreover have "map Inr (row # new) = map2 build_row [c ..< c + length (ap # aps)] (ap # aps)"
    using row new(4) by (simp only: upt) simp
  moreover have "rows' = rows @ row # new" using new(1) by simp
  moreover have "length (row # new) = length (ap # aps)" using new(2) by simp
  ultimately show ?case using c' by (intro conjI exI [of _ "row # new"]) simp_all
qed

lemma placement_numbers_snoc:
  "placement_numbers (wb @ [ws]) = placement_numbers wb @ first_column (data_rows ws)"
  by (simp add: placement_numbers_def first_column_def)

lemma sheets_loop_numbers:
  "sheets_loop lib items c wb = Inr wb'
   \<Longrightarrow> placement_numbers wb'
       = placement_numbers wb @ map placement_number [c ..< c + length (concat (map snd items))]"
proof (induction items arbitrary: c wb)
  case Nil
  then show ?case by simp
next
  case (Cons item items)
  obtain k recs where item: "item = (k, recs)" by (cases item)
  from Cons.prems item obtain t rows c1 where
    rows: "rows_loop lib recs c [HEADER] = Inr (rows, c1)"
    and rest: "sheets_loop lib items c1
        (wb @ [\<lparr>ws_title = t, ws_rows = rows, header_bold = True, freeze_panes = ''A2''\<rparr>]) = Inr wb'"
    by (auto split: sum.splits option.splits)
  let ?ws = "\<lparr>ws_title = t, ws_rows = rows, header_bold = True, freeze_panes = ''A2''\<rparr>"
  from rows_loop_spec [OF rows] obtain new where c1: "c1 = c + length recs"
    and new: "rows = [HEADER] @ new"
      "first_column new = map placement_number [c ..< c + length recs]"
    by blast
  have "first_column (data_rows ?ws) = map placement_number [c ..< c + length recs]"
    using new by (simp add: data_rows_def)
  then have "placement_numbers (wb @ [?ws])
      = placement_numbers wb @ map placement_number [c ..< c + length recs]"
    by (simp only: placement_numbers_snoc)
  moreover have "[c ..< c + length recs] @ [c1 ..< c1 + length (concat (map snd items))]
      = [c ..< c + length (concat (map snd (item # items)))]"
    using c1 item upt_add_eq_append [of c "c + length recs" "length (concat (map snd items))"]
    by (simp add: add.assoc)
  ultimately show ?case
    using Cons.IH [OF rest] by (simp flip: map_append)
qed

lemma main_saved:
  assumes "main lib argv data = Saved wb"
  shows "\<exists>aps by_floor. dict_get data ''accesspoints'' (PList []) = Inr (PList aps)
           \<and> aps \<noteq> [] \<and> length argv = 3
           \<and> group_by_floor aps [] = Inr by_floor \<and> sheets_loop lib by_floor 1 [] = Inr wb"
proof -
  from assms obtain v items by_floor where argv: "length argv = 3"
    and v: "dict_get data ''accesspoints'' (PList []) = Inr v" "truthy v"
    and items: "iterate v = Inr items"
    and g: "group_by_floor items [] = Inr by_floor"
    and wb: "sheets_loop lib by_floor 1 [] = Inr wb"
    by (auto simp: main_def split: if_splits sum.splits)
  have "v = PList items"
  proof (cases v)
    case (PList xs)
    with items show ?thesis by simp
  next
    case (PDict kvs)
    with v(2) obtain k u rest where "kvs = (k, u) # rest" by (cases kvs) auto
    with PDict items g show ?thesis by (auto simp: floor_of_def)
  next
    case (PStr s)
    with v(2) obtain ch rest where "s = ch # rest" by (cases s) auto
    with PStr items g show ?thesis by (auto simp: floor_of_def)
  qed (use items in auto)
  with v g wb argv show ?thesis by auto
qed

lemma sheets_loop_spec:
  "sheets_loop lib items c wb = Inr wb'
   \<Longrightarrow> length wb' = length wb + length items \<and> take (length wb) wb' = wb
       \<and> (\<forall>i<length items.
             sheet_from lib (map ws_title (take (length wb + i) wb'))
               (c + length (concat (map snd (take i items)))) (items ! i) (wb' ! (length wb + i)))"
proof (induction items arbitrary: c wb)
  case Nil
  then show ?case by simp
next
  case (Cons item items)
  obtain k recs where item: "item = (k, recs)" by (cases item)
  from Cons.prems item obtain name t rows c1 where
    name: "k = KStr name"
    and t: "create_sheet lib (map ws_title wb) (normalise_sheet_name name) = Inr t"
    and rows: "rows_loop lib recs c [HEADER] = Inr (rows, c1)"
    and rest: "sheets_loop lib items c1
        (wb @ [\<lparr>ws_title = t, ws_rows = rows, header_bold = True, freeze_panes = ''A2''\<rparr>]) = Inr wb'"
    by (cases k) (auto split: sum.splits option.splits)
  let ?ws = "\<lparr>ws_title = t, ws_rows = rows, header_bold = True, freeze_panes = ''A2''\<rparr>"
  from rows_loop_spec [OF rows] obtain new where c1: "c1 = c + length recs"
    and new: "rows = [HEADER] @ new" "map Inr new = map2 build_row [c ..< c + length recs] recs"
    by blast
  from Cons.IH [OF rest] have len: "length wb' = length wb + length (item # items)"
    and tk: "take (Suc (length wb)) wb' = wb @ [?ws]"
    and later: "\<And>i. i < length items \<Longrightarrow>
        sheet_from lib (map ws_title (take (Suc (length wb) + i) wb'))
          (c1 + length (concat (map snd (take i items)))) (items ! i) (wb' ! (Suc (length wb) + i))"
    by simp_all
  have "take (length wb) (take (Suc (length wb)) wb') = take (length wb) (wb @ [?ws])"
    by (simp only: tk)
  then have before: "take (length wb) wb' = wb" by simp
  have "take (Suc (length wb)) wb' ! length wb = (wb @ [?ws]) ! length wb"
    by (simp only: tk)
  then have here: "wb' ! length wb = ?ws" by simp
  have first: "sheet_from lib (map ws_title (take (length wb) wb')) c item (wb' ! length wb)"
    using item name t new by (simp add: sheet_from_def before here)
  have "sheet_from lib (map ws_title (take (length wb + i) wb'))
          (c + length (concat (map snd (take i (item # items))))) ((item # items) ! i)
          (wb' ! (length wb + i))" if "i < length (item # items)" for i
  proof (cases i)
    case 0
    with first show ?thesis by simp
  next
    case (Suc j)
    with that have "j < length items" by simp
    from later [OF this] show ?thesis
      using Suc item c1 by (simp add: add.assoc)
  qed
  with len before show ?case by blast
qed

lemma group_members:
  assumes "group_by_floor aps [] = Inr by_floor" and "(k, recs) \<in> set by_floor"
  shows "set recs \<subseteq> set aps" and "floor_of ` set recs \<subseteq> {Inr k}"
  using group_by_floor_spec(3) [OF assms(1)] assms(2) by auto

lemma group_by_floor_key_set:
  assumes "group_by_floor aps [] = Inr by_floor"
  shows "k \<in> fst ` set by_floor \<longleftrightarrow> (\<exists>ap \<in> set aps. floor_of ap = Inr k)"
proof -
  have "set (map (\<lambda>(k, recs). Inr k) by_floor) = set (map floor_of aps)"
    using group_by_floor_spec(1) [OF assms] by (simp add: set_first_seen)
  then have eq: "Inr ` fst ` set by_floor = floor_of ` set aps"
    by (simp add: image_image case_prod_unfold)
  show ?thesis
  proof
    assume "k \<in> fst ` set by_floor"
    then have "(Inr k :: exn + pykey) \<in> Inr ` fst ` set by_floor" by (rule imageI)
    then have "Inr k \<in> floor_of ` set aps" unfolding eq .
    then show "\<exists>ap \<in> set aps. floor_of ap = Inr k" by auto
  next
    assume "\<exists>ap \<in> set aps. floor_of ap = Inr k"
    then have "Inr k \<in> floor_of ` set aps" by force
    then have "(Inr k :: exn + pykey) \<in> Inr ` fst ` set by_floor" unfolding eq .
    then show "k \<in> fst ` set by_floor" by auto
  qed
qed

lemma group_by_floor_has_group:
  assumes "group_by_floor aps [] = Inr by_floor" and "ap \<in> set aps" and "floor_of ap = Inr k"
  shows "\<exists>recs. (k, recs) \<in> set by_floor \<and> ap \<in> set recs
           \<and> recs = filter (\<lambda>ap. floor_of ap = Inr k) aps"
proof -
  have "k \<in> fst ` set by_floor"
    using group_by_floor_key_set [OF assms(1)] assms(2,3) by blast
  then obtain recs where recs: "(k, recs) \<in> set by_floor" by auto
  with group_by_floor_spec(3) [OF assms(1)]
  have "recs = filter (\<lambda>ap. floor_of ap = Inr k) aps" by auto
  with recs assms(2,3) show ?thesis by auto
qed

lemma build_row_counter:
  "build_row c ap = Inr row \<Longrightarrow> \<exists>row'. build_row c' ap = Inr row'"
  by (auto simp: build_row_def split: sum.splits)

lemma rows_loop_total:
  assumes "\<forall>ap \<in> set recs. \<exists>row. build_row 0 ap = Inr row"
    and "\<forall>rows row. ws_append lib rows row = None"
  shows "\<exists>r. rows_loop lib recs c rows = Inr r"
  using assms(1)
proof (induction recs arbitrary: c rows)
  case Nil
  show ?case by simp
next
  case (Cons ap recs)
  then obtain row0 where "build_row 0 ap = Inr row0" by auto
  from build_row_counter [OF this] obtain row where "build_row c ap = Inr row" by blast
  with Cons assms(2) show ?case by simp
qed

lemma sheets_loop_errors:
  assumes "\<forall>rows row. ws_append lib rows row = None"
  shows "\<forall>(k, recs) \<in> set items.
           (\<exists>name. k = KStr name) \<and> (\<forall>ap \<in> set recs. \<exists>row. build_row 0 ap = Inr row)
         \<Longrightarrow> sheets_loop lib items c wb = Inl e
         \<Longrightarrow> \<exists>titles t. create_sheet lib titles t = Inl e"
proof (induction items arbitrary: c wb)
  case Nil
  then show ?case by simp
next
  case (Cons item items)
  obtain k recs where item: "item = (k, recs)" by (cases item)
  with Cons.prems(1) obtain name where name: "k = KStr name"
    and ok: "\<forall>ap \<in> set recs. \<exists>row. build_row 0 ap = Inr row"
    by auto
  from rows_loop_total [OF ok assms] obtain rows c1 where
    rows: "rows_loop lib recs c [HEADER] = Inr (rows, c1)" by fastforce
  show ?case
  proof (cases "create_sheet lib (map ws_title wb) (normalise_sheet_name name)")
    case (Inl e')
    with Cons.prems(2) item name have "e' = e" by simp
    with Inl show ?thesis by blast
  next
    case (Inr t)
    with Cons.prems(2) item name rows assms
    have "sheets_loop lib items c1
        (wb @ [\<lparr>ws_title = t, ws_rows = rows, header_bold = True, freeze_panes = ''A2''\<rparr>]) = Inl e"
      by simp
    with Cons.IH Cons.prems(1) show ?thesis by simp
  qed
qed

lemma well_formed_groups:
  assumes "group_by_floor aps [] = Inr by_floor" and "\<forall>ap \<in> set aps. well_formed ap"
  shows "\<forall>(k, recs) \<in> set by_floor.
           (\<exists>name. k = KStr name) \<and> (\<forall>ap \<in> set recs. \<exists>row. build_row 0 ap = Inr row)"
proof (clarify, intro conjI ballI)
  fix k recs assume in_g: "(k, recs) \<in> set by_floor"
  then have "k \<in> fst ` set by_floor" by force
  then obtain ap where "ap \<in> set aps" "floor_of ap = Inr k"
    using group_by_floor_key_set [OF assms(1)] by blast
  with assms(2) show "\<exists>name. k = KStr name" by (fastforce simp: well_formed_def)
  fix ap assume "ap \<in> set recs"
  with group_members(1) [OF assms(1) in_g] have "ap \<in> set aps" by auto
  with assms(2) show "\<exists>row. build_row 0 ap = Inr row" by (auto simp: well_formed_def)
qed


lemma spec_openpyxl_titles:
  assumes "sheets_loop spec_openpyxl by_floor c [] = Inr wb"
    and "i < j" and "j < length by_floor"
    and "fst (by_floor ! i) = KStr f1" and "fst (by_floor ! j) = KStr f2"
  shows "normalise_sheet_name f1 \<noteq> normalise_sheet_name f2"
proof -
  from sheets_loop_spec [OF assms(1)] have len: "length wb = length by_floor"
    and sheets: "\<And>n. n < length by_floor \<Longrightarrow>
        sheet_from spec_openpyxl (map ws_title (take n wb))
          (c + length (concat (map snd (take n by_floor)))) (by_floor ! n) (wb ! n)"
    by simp_all
  from sheets [of i] assms(2,3,4)
  have ti: "ws_title (wb ! i) = normalise_sheet_name f1"
    by (auto simp: sheet_from_def spec_openpyxl_def split: if_splits)
  from sheets [OF assms(3)] assms(5)
  have "normalise_sheet_name f2 \<notin> set (map ws_title (take j wb))"
    by (auto simp: sheet_from_def spec_openpyxl_def split: if_splits)
  moreover have "ws_title (wb ! i) \<in> set (map ws_title (take j wb))"
    using assms(2,3) len by (auto simp: in_set_conv_nth intro!: image_eqI [where x = "wb ! i"] exI [of _ i])
  ultimately show ?thesis using ti by auto
qed

subsection \<open>The example inputs\<close>

lemma example_sheet_names:
  "normalise_sheet_name ''1st Floor'' = ''Floor 1''"
  "normalise_sheet_name ''2nd Floor'' = ''Floor 2''"
  "normalise_sheet_name ''1 floor'' = ''Floor 1''"
  by (simp_all add: rx_defs char_class_defs)

lemma example_models:
  "normalise_model ''c9130'' = ''C-9130''"
  "normalise_model ''AIR-AP'' = ''AIR-AP''"
  "normalise_model ''C9130AXI'' = ''C-9130AXI''"
  "normalise_model ''ap-105'' = ''AP-105''"
  by (simp_all add: normalise_model_def startswith_def replace_char_def char_class_defs)

lemma example_numbers:
  "placement_number 1 = ''AP-001''"
  "placement_number 2 = ''AP-002''"
  "placement_number 3 = ''AP-003''"
  by (simp_all add: placement_number_def format_03d_def digit_char_def str_nat.simps
      numeral_2_eq_2)

lemma example_groups:
  "group_by_floor example_aps []
     = Inr [(KStr ''1st Floor'', [example_aps ! 0, example_aps ! 2]),
            (KStr ''2nd Floor'', [example_aps ! 1])]"
  by (simp add: example_aps_def floor_of_def)

lemma example_saved:
  "\<exists>wb. main accepting_openpyxl example_argv example_data = Saved wb
     \<and> map ws_title wb = [''Floor 1'', ''Floor 2'']"
  by (simp add: main_def example_argv_def example_data_def example_aps_def floor_of_def
      example_sheet_names accepting_openpyxl_def build_row_def model_field_def example_models
      coord_note_def format_double_12_34 format_double_5_6)

subsection \<open>Placement numbers\<close>

lemma saved_placement_numbers:
  assumes "main lib argv data = Saved wb"
  shows "\<exists>aps. dict_get data ''accesspoints'' (PList []) = Inr (PList aps)
           \<and> placement_numbers wb = map placement_number [1 ..< Suc (length aps)]"
proof -
  from main_saved [OF assms] obtain aps by_floor where
    aps: "dict_get data ''accesspoints'' (PList []) = Inr (PList aps)"
    and g: "group_by_floor aps [] = Inr by_floor"
    and wb: "sheets_loop lib by_floor 1 [] = Inr wb"
    by blast
  have "length (concat (map snd by_floor)) = length aps"
    using group_by_floor_size [OF g] by simp
  with sheets_loop_numbers [OF wb]
  have "placement_numbers wb = map placement_number [1 ..< Suc (length aps)]"
    by (simp add: placement_numbers_def first_column_def)
  with aps show ?thesis by blast
qed

lemma main_saves:
  assumes "length argv = 3" and "map_of kvs ''accesspoints'' = Some (PList aps)"
    and "aps \<noteq> []" and "\<forall>ap \<in> set aps. well_formed ap"
    and "\<forall>titles t. \<exists>t'. create_sheet lib titles t = Inr t'"
    and "\<forall>rows row. ws_append lib rows row = None"
  shows "\<exists>wb. main lib argv (PDict kvs) = Saved wb"
proof -
  from assms(4) have "\<forall>ap \<in> set aps. \<exists>k. floor_of ap = Inr k"
    by (auto simp: well_formed_def)
  from group_by_floor_total [OF this] obtain by_floor where
    g: "group_by_floor aps [] = Inr by_floor" by blast
  have m: "main lib argv (PDict kvs)
      = (case sheets_loop lib by_floor 1 [] of Inl e \<Rightarrow> Raised e | Inr wb \<Rightarrow> Saved wb)"
    using assms(1-3) g by (simp add: main_def)
  show ?thesis
  proof (cases "sheets_loop lib by_floor 1 []")
    case (Inr wb)
    with m show ?thesis by simp
  next
    case (Inl e)
    from sheets_loop_errors [OF assms(6) well_formed_groups [OF g assms(4)] Inl] assms(5)
    show ?thesis by (metis Inl_Inr_False)
  qed
qed

lemma str_nat_step: "10 \<le> n \<Longrightarrow> length (str_nat n) = Suc (length (str_nat (n div 10)))"
  by (subst str_nat.simps) simp

lemma str_nat_long: "1000 \<le> n \<Longrightarrow> 3 < length (str_nat n)"
proof -
  assume n: "1000 \<le> n"
  then have "10 \<le> n" "10 \<le> n div 10" "10 \<le> n div 10 div 10" by simp_all
  then have "length (str_nat n) = Suc (Suc (Suc (length (str_nat (n div 10 div 10 div 10)))))"
    by (simp add: str_nat_step)
  moreover have "0 < length (str_nat (n div 10 div 10 div 10))"
    using str_nat_nonempty by simp
  ultimately show ?thesis by simp
qed

lemma format_03d_long: "1000 \<le> n \<Longrightarrow> format_03d n = str_nat n"
  using str_nat_long [of n] by (simp add: format_03d_def)

text \<open>
  Claim C1, as stated: every placement number is "AP-" and three digits. The format
  \<open>03d\<close> pads to three digits and cuts nothing: the 1000th access point of an input
  gets the number AP-1000, with four digits.
\<close>

theorem thousandth_placement_number:
  "\<exists>wb. main accepting_openpyxl example_argv
          (PDict [(''accesspoints'', PList (replicate 1000 (PDict [(''model'', PStr ''c9130'')])))])
        = Saved wb
     \<and> length (placement_numbers wb) = 1000
     \<and> placement_numbers wb ! 999 = ''AP-1000''
     \<and> length (drop 3 (placement_numbers wb ! 999)) = 4"
proof -
  let ?ap = "PDict [(''model'', PStr ''c9130'')]"
  let ?aps = "replicate 1000 ?ap"
  let ?kvs = "[(''accesspoints'', PList ?aps)]"
  have 1: "length example_argv = 3" by (simp add: example_argv_def)
  have 2: "map_of ?kvs ''accesspoints'' = Some (PList ?aps)" by simp
  have 3: "?aps \<noteq> []" by simp
  have "well_formed ?ap"
    by (simp add: well_formed_def floor_of_def build_row_def model_field_def coord_note_def)
  then have 4: "\<forall>ap \<in> set ?aps. well_formed ap" by simp
  have 5: "\<forall>titles t. \<exists>t'. create_sheet accepting_openpyxl titles t = Inr t'"
    and 6: "\<forall>rows row. ws_append accepting_openpyxl rows row = None"
    by (simp_all add: accepting_openpyxl_def)
  from main_saves [OF 1 2 3 4 5 6] obtain wb where
    wb: "main accepting_openpyxl example_argv (PDict ?kvs) = Saved wb" ..
  from saved_placement_numbers [OF wb] obtain aps where
    a: "dict_get (PDict ?kvs) ''accesspoints'' (PList []) = Inr (PList aps)"
    and n: "placement_numbers wb = map placement_number [1 ..< Suc (length aps)]"
    by (elim exE conjE) (erule (1) that)
  from a have "aps = ?aps" by simp
  then have "length aps = 1000" by simp
  with n have numbers: "placement_numbers wb = map placement_number [1 ..< Suc 1000]"
    by (simp only:)
  have len: "length (placement_numbers wb) = 1000"
    by (simp add: numbers del: upt_Suc)
  have "placement_numbers wb ! 999 = placement_number 1000"
    by (simp add: numbers del: upt_Suc)
  moreover have "placement_number 1000 = ''AP-1000''"
    by (simp add: placement_number_def format_03d_def digit_char_def str_nat.simps)
  ultimately have last: "placement_numbers wb ! 999 = ''AP-1000''" by (rule trans)
  then have "length (drop 3 (placement_numbers wb ! 999)) = 4" by simp
  with wb len last show ?thesis by (intro exI [of _ wb] conjI)
qed

text \<open>
  Claim C1, amended: the placement numbers of a saved workbook, read sheet after sheet
  and row after row, are those of the counter values 1, 2, 3 and so on up to the number
  of access points, whatever the floors; so they differ from each other. Each is "AP-"
  and the decimal digits of the counter, with zeros on the left up to three digits:
  three digits below 1000, and from 1000 on the four or more digits of the counter,
  without zeros in front.
\<close>

theorem placement_numbers_global:
  assumes "main lib argv data = Saved wb"
  shows "\<exists>aps. dict_get data ''accesspoints'' (PList []) = Inr (PList aps)
           \<and> placement_numbers wb = map placement_number [1 ..< Suc (length aps)]
           \<and> distinct (placement_numbers wb)
           \<and> (\<forall>n. take 3 (placement_number n) = ''AP-''
                 \<and> drop 3 (placement_number n)
                     = replicate (3 - length (str_nat n)) (CHR ''0'') @ str_nat n
                 \<and> list_all is_digit (drop 3 (placement_number n))
                 \<and> decimal_value (drop 3 (placement_number n)) = n
                 \<and> 3 \<le> length (drop 3 (placement_number n))
                 \<and> (n < 1000 \<longrightarrow> length (drop 3 (placement_number n)) = 3)
                 \<and> (1000 \<le> n \<longrightarrow> drop 3 (placement_number n) = str_nat n
                       \<and> 3 < length (drop 3 (placement_number n))))"
proof -
  from saved_placement_numbers [OF assms] obtain aps where
    aps: "dict_get data ''accesspoints'' (PList []) = Inr (PList aps)"
    and numbers: "placement_numbers wb = map placement_number [1 ..< Suc (length aps)]"
    by blast
  have "inj placement_number"
    using placement_number_inj by (auto intro: injI)
  then have d: "distinct (placement_numbers wb)"
    by (simp add: numbers distinct_map inj_on_def)
  have fmt: "\<forall>n. take 3 (placement_number n) = ''AP-''
      \<and> drop 3 (placement_number n) = replicate (3 - length (str_nat n)) (CHR ''0'') @ str_nat n
      \<and> list_all is_digit (drop 3 (placement_number n))
      \<and> decimal_value (drop 3 (placement_number n)) = n
      \<and> 3 \<le> length (drop 3 (placement_number n))
      \<and> (n < 1000 \<longrightarrow> length (drop 3 (placement_number n)) = 3)"
    using format_03d_digits decimal_value_format_03d format_03d_length
    by (auto simp: placement_number_def format_03d_def)
  have long: "\<forall>n. 1000 \<le> n \<longrightarrow> drop 3 (placement_number n) = str_nat n
      \<and> 3 < length (drop 3 (placement_number n))"
    using format_03d_long str_nat_long by (simp add: placement_number_def)
  from aps numbers d fmt long show ?thesis by blast
qed

lemma example_upt: "[1 ..< Suc 3] = [1, 2, 3]"
  by (simp add: upt_rec)

theorem placement_numbers_global_witness:
  "\<exists>wb. main accepting_openpyxl example_argv example_data = Saved wb
     \<and> placement_numbers wb = [''AP-001'', ''AP-002'', ''AP-003'']
     \<and> distinct (placement_numbers wb)"
proof -
  from example_saved obtain wb where
    wb: "main accepting_openpyxl example_argv example_data = Saved wb" by blast
  from placement_numbers_global [OF wb] obtain aps where
    aps: "dict_get example_data ''accesspoints'' (PList []) = Inr (PList aps)"
    and n: "placement_numbers wb = map placement_number [1 ..< Suc (length aps)]"
    and d: "distinct (placement_numbers wb)"
    by blast
  from aps have "length aps = 3" by (auto simp: example_data_def example_aps_def)
  with n have "placement_numbers wb = map placement_number [1, 2, 3]"
    by (simp only: example_upt)
  then have "placement_numbers wb = [''AP-001'', ''AP-002'', ''AP-003'']"
    by (simp only: list.map example_numbers)
  with wb d show ?thesis by blast
qed

subsection \<open>Sheets and groups\<close>

text \<open>
  Claim C3: when every record has a floor key, grouping gives one group per distinct
  floor name, the groups in the order in which the names first appear, each group
  holding the records of its floor in their input order; and a workbook that is saved
  has one sheet per group, in that order: sheet \<open>i\<close> is the one made for group \<open>i\<close>, so
  the number of sheets is the number of distinct floor names.
\<close>

theorem sheets_follow_groups:
  assumes "\<forall>ap \<in> set aps. \<exists>k. floor_of ap = Inr k"
  shows "\<exists>by_floor. group_by_floor aps [] = Inr by_floor
           \<and> map (\<lambda>(k, recs). Inr k) by_floor = first_seen (map floor_of aps)
           \<and> distinct (map fst by_floor)
           \<and> (\<forall>(k, recs) \<in> set by_floor. recs = filter (\<lambda>ap. floor_of ap = Inr k) aps)
           \<and> length by_floor = card (set (map floor_of aps))
           \<and> (\<forall>lib argv data wb.
                 dict_get data ''accesspoints'' (PList []) = Inr (PList aps)
                 \<and> main lib argv data = Saved wb
                 \<longrightarrow> length wb = length by_floor
                     \<and> (\<forall>i<length wb.
                           sheet_from lib (map ws_title (take i wb))
                             (1 + length (concat (map snd (take i by_floor))))
                             (by_floor ! i) (wb ! i)))"
proof -
  from group_by_floor_total [OF assms] obtain by_floor where
    g: "group_by_floor aps [] = Inr by_floor" by blast
  have sheets: "length wb = length by_floor
      \<and> (\<forall>i<length wb.
            sheet_from lib (map ws_title (take i wb))
              (1 + length (concat (map snd (take i by_floor)))) (by_floor ! i) (wb ! i))"
    if "dict_get data ''accesspoints'' (PList []) = Inr (PList aps)
        \<and> main lib argv data = Saved wb" for lib argv data wb
  proof -
    from that main_saved [of lib argv data wb] g
    have "sheets_loop lib by_floor 1 [] = Inr wb" by auto
    from sheets_loop_spec [OF this] show ?thesis by simp
  qed
  from g group_by_floor_spec [OF g] sheets show ?thesis by blast
qed

theorem sheets_follow_groups_witness:
  "group_by_floor example_aps []
     = Inr [(KStr ''1st Floor'', [example_aps ! 0, example_aps ! 2]),
            (KStr ''2nd Floor'', [example_aps ! 1])]
   \<and> (\<exists>wb. main accepting_openpyxl example_argv example_data = Saved wb \<and> length wb = 2
          \<and> map ws_title wb = [''Floor 1'', ''Floor 2''])"
proof -
  have h: "\<forall>ap \<in> set example_aps. \<exists>k. floor_of ap = Inr k"
    by (simp add: example_aps_def floor_of_def)
  from sheets_follow_groups [OF h] obtain by_floor where
    g: "group_by_floor example_aps [] = Inr by_floor"
    and sheets: "\<forall>lib argv data wb.
      dict_get data ''accesspoints'' (PList []) = Inr (PList example_aps)
      \<and> main lib argv data = Saved wb
      \<longrightarrow> length wb = length by_floor
          \<and> (\<forall>i<length wb.
                sheet_from lib (map ws_title (take i wb))
                  (1 + length (concat (map snd (take i by_floor)))) (by_floor ! i) (wb ! i))"
    by (elim exE conjE) (erule (1) that)
  from g [symmetric] example_groups
  have "Inr by_floor = (Inr [(KStr ''1st Floor'', [example_aps ! 0, example_aps ! 2]),
      (KStr ''2nd Floor'', [example_aps ! 1])] :: exn + (pykey \<times> pyval list) list)"
    by (rule trans)
  then have "by_floor = [(KStr ''1st Floor'', [example_aps ! 0, example_aps ! 2]),
      (KStr ''2nd Floor'', [example_aps ! 1])]"
    by (simp only: sum.inject)
  then have len: "length by_floor = 2" by simp
  from example_saved obtain wb where
    wb: "main accepting_openpyxl example_argv example_data = Saved wb"
      "map ws_title wb = [''Floor 1'', ''Floor 2'']"
    by (elim exE conjE) (erule (1) that)
  have d: "dict_get example_data ''accesspoints'' (PList []) = Inr (PList example_aps)"
    by (simp add: example_data_def)
  from sheets [rule_format, OF conjI [OF d wb(1)]]
  have "length wb = length by_floor" by (rule conjunct1)
  with len have "length wb = 2" by simp
  with wb have "\<exists>wb. main accepting_openpyxl example_argv example_data = Saved wb \<and> length wb = 2
      \<and> map ws_title wb = [''Floor 1'', ''Floor 2'']"
    by (intro exI [of _ wb] conjI)
  with example_groups show ?thesis by (rule conjI)
qed

text \<open>
  Claim C8: a record without the key \<open>floorplan_name\<close> has the floor key
  "Unknown Floor", the key of a record that gives this name; in \<open>by_floor\<close> it stands in
  the group of that key, which holds the records of the floor "Unknown Floor", named or
  not, in input order.
\<close>

theorem unknown_floor_default:
  assumes "map_of kvs ''floorplan_name'' = None"
  shows "floor_of (PDict kvs) = Inr (KStr ''Unknown Floor'')
    \<and> floor_of (PDict kvs) = floor_of (PDict ((''floorplan_name'', PStr ''Unknown Floor'') # kvs))
    \<and> (\<forall>aps by_floor.
          PDict kvs \<in> set aps \<and> group_by_floor aps [] = Inr by_floor
          \<longrightarrow> (\<exists>recs. (KStr ''Unknown Floor'', recs) \<in> set by_floor \<and> PDict kvs \<in> set recs
                 \<and> recs = filter (\<lambda>ap. floor_of ap = Inr (KStr ''Unknown Floor'')) aps))"
proof -
  have k: "floor_of (PDict kvs) = Inr (KStr ''Unknown Floor'')"
    using assms by (simp add: floor_of_def)
  moreover have "floor_of (PDict ((''floorplan_name'', PStr ''Unknown Floor'') # kvs))
      = Inr (KStr ''Unknown Floor'')"
    by (simp add: floor_of_def)
  moreover have "\<exists>recs. (KStr ''Unknown Floor'', recs) \<in> set by_floor \<and> PDict kvs \<in> set recs
      \<and> recs = filter (\<lambda>ap. floor_of ap = Inr (KStr ''Unknown Floor'')) aps"
    if "PDict kvs \<in> set aps \<and> group_by_floor aps [] = Inr by_floor" for aps by_floor
    using that group_by_floor_has_group [of aps by_floor "PDict kvs" "KStr ''Unknown Floor''"] k
    by blast
  ultimately show ?thesis by simp
qed

theorem unknown_floor_default_witness:
  "map_of [(''model'', PStr ''AIR-AP'')] ''floorplan_name'' = None
   \<and> floor_of (PDict [(''model'', PStr ''AIR-AP'')]) = Inr (KStr ''Unknown Floor'')
   \<and> group_by_floor unnamed_aps []
       = Inr [(KStr ''Lobby'', [unnamed_aps ! 0]),
              (KStr ''Unknown Floor'', [unnamed_aps ! 1, unnamed_aps ! 2])]
   \<and> (\<exists>recs. (KStr ''Unknown Floor'', recs)
          \<in> set [(KStr ''Lobby'', [unnamed_aps ! 0]),
                  (KStr ''Unknown Floor'', [unnamed_aps ! 1, unnamed_aps ! 2])]
        \<and> PDict [(''model'', PStr ''AIR-AP'')] \<in> set recs)"
proof -
  have none: "map_of [(''model'', PStr ''AIR-AP'')] ''floorplan_name'' = None" by simp
  have g: "group_by_floor unnamed_aps []
      = Inr [(KStr ''Lobby'', [unnamed_aps ! 0]),
             (KStr ''Unknown Floor'', [unnamed_aps ! 1, unnamed_aps ! 2])]"
    by (simp add: unnamed_aps_def floor_of_def)
  have m: "PDict [(''model'', PStr ''AIR-AP'')] \<in> set unnamed_aps"
    by (simp add: unnamed_aps_def)
  note t = unknown_floor_default [OF none]
  from t have k: "floor_of (PDict [(''model'', PStr ''AIR-AP'')]) = Inr (KStr ''Unknown Floor'')"
    by (rule conjunct1)
  from t [THEN conjunct2, THEN conjunct2, rule_format, OF conjI [OF m g]]
  have "\<exists>recs. (KStr ''Unknown Floor'', recs)
          \<in> set [(KStr ''Lobby'', [unnamed_aps ! 0]),
                  (KStr ''Unknown Floor'', [unnamed_aps ! 1, unnamed_aps ! 2])]
        \<and> PDict [(''model'', PStr ''AIR-AP'')] \<in> set recs"
    by (elim exE conjE) (intro exI conjI)
  with none k g show ?thesis by (intro conjI)
qed

subsection \<open>Sheet names that collide\<close>

lemma main_grouped:
  assumes "length argv = 3" and "map_of kvs ''accesspoints'' = Some (PList aps)"
    and "aps \<noteq> []" and "group_by_floor aps [] = Inr by_floor"
  shows "main lib argv (PDict kvs)
    = (case sheets_loop lib by_floor 1 [] of Inl e \<Rightarrow> Raised e | Inr wb \<Rightarrow> Saved wb)"
  using assms by (simp add: main_def)

text \<open>
  Claim C7: when two different floor names of the input have the same normalised sheet
  name, no workbook is saved: with records that are otherwise well formed, the creation
  of the later sheet raises the library's DuplicateNameError. The program checks nothing
  itself: with a library that raises nothing the same input is saved.
\<close>

theorem duplicate_sheet_names:
  assumes "length argv = 3"
    and "map_of kvs ''accesspoints'' = Some (PList aps)"
    and "a \<in> set aps" and "b \<in> set aps"
    and "floor_of a = Inr (KStr f1)" and "floor_of b = Inr (KStr f2)"
    and "f1 \<noteq> f2" and "normalise_sheet_name f1 = normalise_sheet_name f2"
  shows "(\<forall>wb. main spec_openpyxl argv (PDict kvs) \<noteq> Saved wb)
    \<and> ((\<forall>ap \<in> set aps. well_formed ap)
        \<longrightarrow> main spec_openpyxl argv (PDict kvs) = Raised DuplicateNameError
            \<and> (\<forall>lib. (\<forall>titles t. \<exists>t'. create_sheet lib titles t = Inr t')
                     \<and> (\<forall>rows row. ws_append lib rows row = None)
                  \<longrightarrow> (\<exists>wb. main lib argv (PDict kvs) = Saved wb)))"
proof -
  have ne: "aps \<noteq> []" using assms(3) by auto
  have never: "main spec_openpyxl argv (PDict kvs) \<noteq> Saved wb" for wb
  proof
    assume "main spec_openpyxl argv (PDict kvs) = Saved wb"
    from main_saved [OF this] assms(2) obtain by_floor where
      g: "group_by_floor aps [] = Inr by_floor"
      and wb: "sheets_loop spec_openpyxl by_floor 1 [] = Inr wb"
      by auto
    have "KStr f1 \<in> fst ` set by_floor" "KStr f2 \<in> fst ` set by_floor"
      using group_by_floor_key_set [OF g] assms(3-6) by blast+
    then obtain i j where i: "i < length by_floor" "fst (by_floor ! i) = KStr f1"
      and j: "j < length by_floor" "fst (by_floor ! j) = KStr f2"
      by (auto simp: in_set_conv_nth)
    with assms(7) have "i \<noteq> j" by auto
    then consider "i < j" | "j < i" by linarith
    then show False
    proof cases
      case 1
      from spec_openpyxl_titles [OF wb 1 j(1) i(2) j(2)] assms(8) show False by simp
    next
      case 2
      from spec_openpyxl_titles [OF wb 2 i(1) j(2) i(2)] assms(8) show False by simp
    qed
  qed
  have rest: "main spec_openpyxl argv (PDict kvs) = Raised DuplicateNameError
      \<and> (\<forall>lib. (\<forall>titles t. \<exists>t'. create_sheet lib titles t = Inr t')
               \<and> (\<forall>rows row. ws_append lib rows row = None)
            \<longrightarrow> (\<exists>wb. main lib argv (PDict kvs) = Saved wb))"
    if wf: "\<forall>ap \<in> set aps. well_formed ap"
  proof -
    from wf have "\<forall>ap \<in> set aps. \<exists>k. floor_of ap = Inr k"
      by (auto simp: well_formed_def)
    from group_by_floor_total [OF this] obtain by_floor where
      g: "group_by_floor aps [] = Inr by_floor" by blast
    note items = well_formed_groups [OF g wf]
    note m = main_grouped [OF assms(1,2) ne g]
    have "main spec_openpyxl argv (PDict kvs) = Raised DuplicateNameError"
    proof (cases "sheets_loop spec_openpyxl by_floor 1 []")
      case (Inr wb)
      with m [of spec_openpyxl] never [of wb] show ?thesis by simp
    next
      case (Inl e)
      have "\<forall>rows row. ws_append spec_openpyxl rows row = None"
        by (simp add: spec_openpyxl_def)
      from sheets_loop_errors [OF this items Inl]
      have "e = DuplicateNameError"
        by (auto simp: spec_openpyxl_def split: if_splits)
      with m [of spec_openpyxl] Inl show ?thesis by simp
    qed
    moreover have "\<exists>wb. main lib argv (PDict kvs) = Saved wb"
      if lib: "(\<forall>titles t. \<exists>t'. create_sheet lib titles t = Inr t')
        \<and> (\<forall>rows row. ws_append lib rows row = None)" for lib
    proof (cases "sheets_loop lib by_floor 1 []")
      case (Inr wb)
      with m [of lib] show ?thesis by simp
    next
      case (Inl e)
      from lib have "\<forall>rows row. ws_append lib rows row = None" by simp
      from sheets_loop_errors [OF this items Inl] lib show ?thesis
        by (metis Inl_Inr_False)
    qed
    ultimately show ?thesis by blast
  qed
  from never rest show ?thesis by blast
qed

theorem duplicate_sheet_names_witness:
  "normalise_sheet_name ''1st Floor'' = normalise_sheet_name ''1 floor''
   \<and> main spec_openpyxl example_argv (PDict [(''accesspoints'', PList clashing_aps)])
       = Raised DuplicateNameError
   \<and> (\<exists>wb. main accepting_openpyxl example_argv (PDict [(''accesspoints'', PList clashing_aps)])
          = Saved wb)"
proof -
  let ?a = "PDict [(''model'', PStr ''c9130''), (''floorplan_name'', PStr ''1st Floor'')]"
  let ?b = "PDict [(''model'', PStr ''c9130''), (''floorplan_name'', PStr ''1 floor'')]"
  have 1: "length example_argv = 3" by (simp add: example_argv_def)
  have 2: "map_of [(''accesspoints'', PList clashing_aps)] ''accesspoints''
      = Some (PList clashing_aps)" by simp
  have 3: "?a \<in> set clashing_aps" "?b \<in> set clashing_aps" by (simp_all add: clashing_aps_def)
  have 4: "floor_of ?a = Inr (KStr ''1st Floor'')" "floor_of ?b = Inr (KStr ''1 floor'')"
    by (simp_all add: floor_of_def)
  have 5: "''1st Floor'' \<noteq> ''1 floor''" by simp
  have 6: "normalise_sheet_name ''1st Floor'' = normalise_sheet_name ''1 floor''"
    by (simp add: example_sheet_names)
  have wf: "\<forall>ap \<in> set clashing_aps. well_formed ap"
    by (simp add: clashing_aps_def well_formed_def floor_of_def build_row_def model_field_def
        coord_note_def)
  have lib: "(\<forall>titles t. \<exists>t'. create_sheet accepting_openpyxl titles t = Inr t')
      \<and> (\<forall>rows row. ws_append accepting_openpyxl rows row = None)"
    by (simp add: accepting_openpyxl_def)
  note t = duplicate_sheet_names [OF 1 2 3 4 5 6, THEN conjunct2, THEN mp, OF wf]
  from t have raised: "main spec_openpyxl example_argv (PDict [(''accesspoints'', PList clashing_aps)])
      = Raised DuplicateNameError"
    by (rule conjunct1)
  from t [THEN conjunct2, THEN spec, THEN mp, OF lib]
  have "\<exists>wb. main accepting_openpyxl example_argv (PDict [(''accesspoints'', PList clashing_aps)])
      = Saved wb" .
  with 6 raised show ?thesis by (intro conjI)
qed

subsection \<open>Empty input\<close>

text \<open>
  Claim C6: when the key \<open>accesspoints\<close> is absent or holds the empty list, the program
  prints that no access points were found and exits with code 1. It stops before the
  workbook is made: the outcome is not \<open>Saved\<close> and does not depend on the library.
\<close>

theorem empty_input_exits:
  assumes "length argv = 3"
    and "map_of kvs ''accesspoints'' = None \<or> map_of kvs ''accesspoints'' = Some (PList [])"
  shows "main lib argv (PDict kvs) = Exit NoAccessPointsMessage 1"
  using assms by (auto simp: main_def)

theorem empty_input_exits_witness:
  "length [''generate_excel'', ''in.json'', ''out.xlsx''] = 3
   \<and> map_of [(''accesspoints'', PList [])] ''accesspoints'' = Some (PList [])
   \<and> main accepting_openpyxl [''generate_excel'', ''in.json'', ''out.xlsx'']
        (PDict [(''accesspoints'', PList [])]) = Exit NoAccessPointsMessage 1
   \<and> map_of [(''version'', PInt 2)] ''accesspoints'' = None
   \<and> main accepting_openpyxl [''generate_excel'', ''in.json'', ''out.xlsx'']
        (PDict [(''version'', PInt 2)]) = Exit NoAccessPointsMessage 1"
  using empty_input_exits [of "[''generate_excel'', ''in.json'', ''out.xlsx'']"
      "[(''accesspoints'', PList [])]" accepting_openpyxl]
    empty_input_exits [of "[''generate_excel'', ''in.json'', ''out.xlsx'']"
      "[(''version'', PInt 2)]" accepting_openpyxl]
  by simp

end
